theory Spec2Isabelle
  imports Main "HOL-Library.Word"
begin

unbundle bit_operations_syntax

section \<open>Constants of pku.h\<close>

definition PAGESIZEPKU :: int where
  "PAGESIZEPKU = 4096"

definition NUM_DOMAINS :: nat where
  "NUM_DOMAINS = 16"

definition NUM_REGISTERED_PKUCALLS :: nat where
  "NUM_REGISTERED_PKUCALLS = 64"

definition NUM_MPROTECT_RANGES :: nat where
  "NUM_MPROTECT_RANGES = 4096"

definition PKEY_DISABLE_ACCESS :: "32 word" where
  "PKEY_DISABLE_ACCESS = 0x1"

definition PKEY_DISABLE_WRITE :: "32 word" where
  "PKEY_DISABLE_WRITE = 0x2"

section \<open>Data model\<close>

text \<open>
  The error numbers of \<^verbatim>\<open>errno.h\<close> stay symbolic. A C function that returns
  \<^verbatim>\<open>-EINVAL\<close> returns \<open>Neg EINVAL\<close>; one that returns a plain integer \<open>n\<close>
  returns \<open>Val n\<close>.
\<close>

datatype errno_code = EACCES | EINVAL | EPERM

datatype retval = Val int | Neg errno_code

text \<open>
  What C leaves undefined is a fault of the model: an array read or written outside its
  bounds, a call through a null function pointer, a shift by the width of the type or more.
\<close>

datatype fault = OutOfBounds | NullCall | ShiftRange

text \<open>\<^verbatim>\<open>struct PKUKey\<close>: \<^verbatim>\<open>pkey_t\<close> is \<^verbatim>\<open>uint16_t\<close>, \<^verbatim>\<open>perm\<close> is \<^verbatim>\<open>unsigned int\<close>.\<close>

record PKUKey =
  pkey :: "16 word"
  perm :: "32 word"
  used :: bool

text \<open>\<^verbatim>\<open>struct PKUCall\<close>: a function pointer is its address, 0 for the null pointer.\<close>

record PKUCall =
  did :: int
  entry :: nat

text \<open>\<^verbatim>\<open>struct s_mprotect\<close> of pkuc/pku.c; the fields carry the prefix \<open>r_\<close>.\<close>

record s_mprotect =
  r_addr :: nat
  r_len :: nat
  r_prot :: int
  r_pkey :: PKUKey
  r_used :: bool
  r_name :: string
  r_mmap_flags :: int
  r_mmap_fd :: int

text \<open>\<^verbatim>\<open>struct PKUData\<close> of pkuc/pku.c.\<close>

record PKUData =
  initialized :: int
  stacksize :: nat
  UserHandler :: nat
  domains :: "PKUKey list"
  ranges :: "s_mprotect list"
  ranges_max_used :: nat

text \<open>
  The globals of pkuc/pku.c, and what the functions act on besides them:
  \<^item> \<open>current_did\<close> is the variable behind \<^verbatim>\<open>GetCurrentDid\<close> and \<^verbatim>\<open>SetCurrentDid\<close>;
  \<^item> \<open>pkru\<close> is the operand of the last \<^verbatim>\<open>wrpkru\<close>, that is the register value \<^verbatim>\<open>SetPkey\<close>
    has computed, and 0 before the first call. It is a record of the calls: the source's
    \<^verbatim>\<open>wrpkru\<close> stores its operand in a local variable and returns it;
  \<^item> \<open>host_pkru\<close> is the protection-control register itself, which the host holds and
    \<^verbatim>\<open>ReadPKRU\<close> asks the host for;
  \<^item> \<open>errno\<close> is the last value assigned to \<^verbatim>\<open>errno\<close>;
  \<^item> \<open>handler_calls\<close> lists the arguments of the calls of \<^verbatim>\<open>g_data.UserHandler\<close>, oldest
    first.
  Output of \<^verbatim>\<open>printf\<close> and \<^verbatim>\<open>perror\<close> is not modelled.
\<close>

record state =
  keys :: "PKUKey list"
  RegisteredPKUCalls :: "PKUCall list"
  g_initialized :: "8 word"
  g_data :: PKUData
  g_LazyFree :: bool
  current_did :: int
  pkru :: "32 word"
  host_pkru :: "32 word"
  errno :: "errno_code option"
  handler_calls :: "nat list"

text \<open>The arrays have the sizes of their C declarations.\<close>

definition wf_state :: "state \<Rightarrow> bool" where
  "wf_state s \<longleftrightarrow>
     length (keys s) = NUM_DOMAINS \<and>
     length (RegisteredPKUCalls s) = NUM_REGISTERED_PKUCALLS \<and>
     length (domains (g_data s)) = NUM_DOMAINS \<and>
     length (ranges (g_data s)) = NUM_MPROTECT_RANGES"

text \<open>
  Zero-initialised globals, then the constructor \<^verbatim>\<open>PKUInitCtor\<close>. The argument is the
  content of the host's protection-control register at process start.
\<close>

definition zero_key :: PKUKey where
  "zero_key = \<lparr>pkey = 0, perm = 0, used = False\<rparr>"

definition zero_call :: PKUCall where
  "zero_call = \<lparr>did = 0, entry = 0\<rparr>"

definition zero_range :: s_mprotect where
  "zero_range = \<lparr>r_addr = 0, r_len = 0, r_prot = 0, r_pkey = zero_key, r_used = False,
     r_name = [], r_mmap_flags = 0, r_mmap_fd = 0\<rparr>"

definition zero_state :: "32 word \<Rightarrow> state" where
  "zero_state p0 =
     \<lparr>keys = replicate NUM_DOMAINS zero_key,
      RegisteredPKUCalls = replicate NUM_REGISTERED_PKUCALLS zero_call,
      g_initialized = 0,
      g_data = \<lparr>initialized = 0, stacksize = 0, UserHandler = 0,
        domains = replicate NUM_DOMAINS zero_key,
        ranges = replicate NUM_MPROTECT_RANGES zero_range,
        ranges_max_used = 0\<rparr>,
      g_LazyFree = False,
      current_did = 0,
      pkru = 0,
      host_pkru = p0,
      errno = None,
      handler_calls = []\<rparr>"

definition PKUInitCtor :: "state \<Rightarrow> state" where
  "PKUInitCtor s = s\<lparr>keys := (keys s)[0 := (keys s ! 0)\<lparr>perm := 0, pkey := 0, used := True\<rparr>]\<rparr>"

definition initial_state :: "32 word \<Rightarrow> state" where
  "initial_state p0 = PKUInitCtor (zero_state p0)"

section \<open>Current domain\<close>

text \<open>
  Modelled from the spec: \<^verbatim>\<open>GetCurrentDid\<close> and \<^verbatim>\<open>SetCurrentDid\<close> are declared in
  PKUInternal.h, which is not among the sources. The spec has every execution context
  maintain its own currently active domain; the two functions read and write it.
\<close>

definition GetCurrentDid :: "state \<Rightarrow> int" where
  "GetCurrentDid s = current_did s"

definition SetCurrentDid :: "int \<Rightarrow> state \<Rightarrow> state" where
  "SetCurrentDid d s = s\<lparr>current_did := d\<rparr>"

section \<open>Host call\<close>

text \<open>
  \<^verbatim>\<open>WASICALL(buf, size)\<close> hands the buffer to the host hook, which answers with an error
  code and overwrites the buffer in place: the buffer keeps its length.
\<close>

type_synonym host = "8 word list \<Rightarrow> int \<times> 8 word list"

definition WASICALL :: "host \<Rightarrow> 8 word list \<Rightarrow> int \<times> 8 word list" where
  "WASICALL h buf =
     (let (e, r) = h buf in (e, take (length buf) r @ drop (length r) buf))"

section \<open>Registry (pkuc/pku.c)\<close>

definition DomainExists :: "int \<Rightarrow> state \<Rightarrow> bool" where
  "DomainExists d s \<longleftrightarrow> d \<ge> 0 \<and> d < int NUM_DOMAINS \<and> used (keys s ! nat d)"

text \<open>The second argument is what \<^verbatim>\<open>sysconf(_SC_PAGESIZE)\<close> returns.\<close>

definition DoInit :: "int \<Rightarrow> int \<Rightarrow> state \<Rightarrow> retval \<times> state" where
  "DoInit flags pagesize s =
     (if initialized (g_data s) \<noteq> 0 then (Val (- 1), s\<lparr>errno := Some EACCES\<rparr>)
      else if pagesize = - 1 then (Val (- 1), s\<lparr>errno := Some EACCES\<rparr>)
      else if PAGESIZEPKU \<noteq> pagesize then (Val (- 1), s\<lparr>errno := Some EACCES\<rparr>)
      else (Val 0, s\<lparr>g_data := (g_data s)\<lparr>initialized := 1\<rparr>\<rparr>))"

definition PKUDeinit :: "state \<Rightarrow> retval \<times> state" where
  "PKUDeinit s = (Val 0, s)"

text \<open>
  On the error path \<^verbatim>\<open>DoInitFinished\<close> is still 0, so \<^verbatim>\<open>PKUDeinit\<close> is not called there.
\<close>

definition PKUInit :: "int \<Rightarrow> int \<Rightarrow> state \<Rightarrow> retval \<times> state" where
  "PKUInit flags pagesize s =
     (if g_initialized s \<noteq> 0 then (Val 0, s)
      else (case DoInit flags pagesize s of
              (ret, s') \<Rightarrow>
                if ret = Val (- 1) then (ret, s')
                else (ret, s'\<lparr>g_initialized := 1\<rparr>)))"

text \<open>First loop of \<^verbatim>\<open>PKUDomainFree\<close>: is a slot of \<^verbatim>\<open>g_data.domains\<close> marked used?\<close>

function any_domain_used :: "nat \<Rightarrow> state \<Rightarrow> bool" where
  "any_domain_used i s =
     (if i < NUM_DOMAINS
      then (if used (domains (g_data s) ! i) then True else any_domain_used (Suc i) s)
      else False)"
  by pat_completeness auto

termination
  by (relation "measure (\<lambda>(i, s). NUM_DOMAINS - i)") auto

text \<open>
  Second loop of \<^verbatim>\<open>PKUDomainFree\<close>: the callback runs on the address of every range
  marked used, in table order. A null \<^verbatim>\<open>UserHandler\<close> cannot be called.
\<close>

function sweep_ranges :: "nat \<Rightarrow> state \<Rightarrow> fault + state" where
  "sweep_ranges rid s =
     (if rid < NUM_MPROTECT_RANGES
      then (if r_used (ranges (g_data s) ! rid)
            then (if UserHandler (g_data s) = 0 then Inl NullCall
                  else sweep_ranges (Suc rid)
                         (s\<lparr>handler_calls :=
                              handler_calls s @ [r_addr (ranges (g_data s) ! rid)]\<rparr>))
            else sweep_ranges (Suc rid) s)
      else Inr s)"
  by pat_completeness auto

termination
  by (relation "measure (\<lambda>(rid, s). NUM_MPROTECT_RANGES - rid)") auto

definition PKUDomainFree :: "int \<Rightarrow> state \<Rightarrow> fault + retval \<times> state" where
  "PKUDomainFree domain s =
     (if initialized (g_data s) = 0 then Inr (Val (- 1), s)
      else if \<not> DomainExists domain s then Inr (Val (- 1), s\<lparr>errno := Some EINVAL\<rparr>)
      else if any_domain_used 0 s then Inr (Val (- 1), s\<lparr>errno := Some EINVAL\<rparr>)
      else (case sweep_ranges 0 s of
              Inl f \<Rightarrow> Inl f
            | Inr s' \<Rightarrow>
                Inr (Val 0,
                  s'\<lparr>g_data := (g_data s')\<lparr>domains :=
                       (domains (g_data s'))[nat domain :=
                          (domains (g_data s') ! nat domain)
                            \<lparr>pkey := 0, perm := 0, used := False\<rparr>]\<rparr>\<rparr>)))"

text \<open>
  \<^verbatim>\<open>PKUCreateDomain\<close>: the request is the opcode 01 21 in a 12-byte buffer; byte 2 of the
  answer is the key.
\<close>

definition PKUCreateDomain :: "host \<Rightarrow> 32 word \<Rightarrow> state \<Rightarrow> retval \<times> state" where
  "PKUCreateDomain h flags s =
     (case WASICALL h ([0x01, 0x21] @ replicate 10 0) of
        (error, buf) \<Rightarrow>
          if error \<noteq> 0 then (Val (- 1), s)
          else if buf ! 2 \<ge> 16 then (Val 0, s)
          else (Val (uint (buf ! 2)),
                 s\<lparr>keys := (keys s)[unat (buf ! 2) :=
                      (keys s ! unat (buf ! 2))\<lparr>pkey := ucast (buf ! 2), used := True\<rparr>]\<rparr>))"

definition PKUPkeyAlloc :: "host \<Rightarrow> 32 word \<Rightarrow> 32 word \<Rightarrow> state \<Rightarrow> retval \<times> state" where
  "PKUPkeyAlloc h flags AccessRights s =
     (if AccessRights AND NOT (PKEY_DISABLE_ACCESS OR PKEY_DISABLE_WRITE) \<noteq> 0
      then (Val (- 1), s\<lparr>errno := Some EINVAL\<rparr>)
      else PKUCreateDomain h flags s)"

text \<open>
  First loop of \<^verbatim>\<open>PKUPkeyFree\<close>: it reads \<^verbatim>\<open>g_data.ranges[rid]\<close> for \<^verbatim>\<open>rid < NUM_DOMAINS\<close>.
\<close>

function any_range_used :: "nat \<Rightarrow> state \<Rightarrow> bool" where
  "any_range_used rid s =
     (if rid < NUM_DOMAINS
      then (if r_used (ranges (g_data s) ! rid) then True else any_range_used (Suc rid) s)
      else False)"
  by pat_completeness auto

termination
  by (relation "measure (\<lambda>(rid, s). NUM_DOMAINS - rid)") auto

text \<open>Second loop of \<^verbatim>\<open>PKUPkeyFree\<close>: every used slot of \<^verbatim>\<open>g_data.domains\<close> is revoked.\<close>

function revoke_domains :: "nat \<Rightarrow> state \<Rightarrow> state" where
  "revoke_domains i s =
     (if i < NUM_DOMAINS
      then (if used (domains (g_data s) ! i)
            then revoke_domains (Suc i)
                   (s\<lparr>g_data := (g_data s)\<lparr>domains :=
                        (domains (g_data s))[i := (domains (g_data s) ! i)\<lparr>used := False\<rparr>]\<rparr>\<rparr>)
            else revoke_domains (Suc i) s)
      else s)"
  by pat_completeness auto

termination
  by (relation "measure (\<lambda>(i, s). NUM_DOMAINS - i)") auto

definition PKUPkeyFree :: "int \<Rightarrow> state \<Rightarrow> fault + retval \<times> state" where
  "PKUPkeyFree k s =
     (if any_range_used 0 s then Inr (Val (- 1), s\<lparr>errno := Some EPERM\<rparr>)
      else (let s' = revoke_domains 0 s in
            if g_LazyFree s' then Inr (Val 0, s') else PKUDomainFree k s'))"

section \<open>Call gate (pkuc/pku.c)\<close>

text \<open>The loop of \<^verbatim>\<open>RegisterPKUCall\<close>: it stops at the first slot whose entry is null.\<close>

function scan_calls :: "nat \<Rightarrow> PKUCall list \<Rightarrow> nat" where
  "scan_calls i cs =
     (if i < NUM_REGISTERED_PKUCALLS
      then (if entry (cs ! i) = 0 then i else scan_calls (Suc i) cs)
      else i)"
  by pat_completeness auto

termination
  by (relation "measure (\<lambda>(i, cs). NUM_REGISTERED_PKUCALLS - i)") auto

definition RegisterPKUCall :: "int \<Rightarrow> nat \<Rightarrow> state \<Rightarrow> retval \<times> state" where
  "RegisterPKUCall d e s =
     (if \<not> DomainExists d s then (Neg EINVAL, s)
      else (let PKUCallID = scan_calls 0 (RegisteredPKUCalls s) in
            if PKUCallID \<ge> NUM_REGISTERED_PKUCALLS then (Neg EACCES, s)
            else if entry (RegisteredPKUCalls s ! PKUCallID) \<noteq> 0 then (Neg EACCES, s)
            else (Val (int PKUCallID),
                   s\<lparr>RegisteredPKUCalls := (RegisteredPKUCalls s)[PKUCallID :=
                        (RegisteredPKUCalls s ! PKUCallID)\<lparr>did := d, entry := e\<rparr>]\<rparr>)))"

section \<open>Protection register codec\<close>

text \<open>
  \<^verbatim>\<open>rdpkru\<close> returns its local variable, which is 0. \<^verbatim>\<open>wrpkru\<close> stores its operand in a
  local variable and returns it, and \<^verbatim>\<open>SetPkey\<close> drops the result: no variable of the
  program and no host call receives the value. The model records the operand in \<open>pkru\<close>,
  so that a statement can say which value \<^verbatim>\<open>SetPkey\<close> computed; the register
  \<open>host_pkru\<close> is not written.
\<close>

definition rdpkru :: "32 word" where
  "rdpkru = 0"

definition wrpkru :: "32 word \<Rightarrow> state \<Rightarrow> state" where
  "wrpkru v s = s\<lparr>pkru := v\<rparr>"

text \<open>The two permission bits \<^verbatim>\<open>SetPkey\<close> keeps of \<^verbatim>\<open>prot\<close>.\<close>

definition new_pkru_bits :: "32 word \<Rightarrow> 32 word" where
  "new_pkru_bits prot =
     (if prot AND PKEY_DISABLE_ACCESS \<noteq> 0 then PKEY_DISABLE_ACCESS else 0) OR
     (if prot AND PKEY_DISABLE_WRITE \<noteq> 0 then PKEY_DISABLE_WRITE else 0)"

text \<open>What \<^verbatim>\<open>SetPkey\<close> takes as the old register value when \<^verbatim>\<open>rdpkru\<close> returned \<open>r\<close>.\<close>

definition old_pkru :: "32 word \<Rightarrow> 32 word" where
  "old_pkru r = (if r = 0 then 0x55555554 else r)"

text \<open>
  The operand \<^verbatim>\<open>SetPkey\<close> hands to \<^verbatim>\<open>wrpkru\<close> when \<^verbatim>\<open>rdpkru\<close> returned \<open>r\<close>. The shift is
  by \<open>2 * pkey\<close> on a 32-bit \<^verbatim>\<open>int\<close>; a shift by 32 or more is a fault of \<^verbatim>\<open>SetPkey\<close>
  below, and for key 15 the bits land in the sign bit, as on the two's-complement machine.
\<close>

definition set_pkey_value :: "32 word \<Rightarrow> 16 word \<Rightarrow> 32 word \<Rightarrow> 32 word" where
  "set_pkey_value r k prot =
     (old_pkru r AND NOT (push_bit (2 * unat k) (PKEY_DISABLE_ACCESS OR PKEY_DISABLE_WRITE)))
       OR push_bit (2 * unat k) (new_pkru_bits prot)"

definition SetPkey :: "16 word \<Rightarrow> 32 word \<Rightarrow> state \<Rightarrow> fault + state" where
  "SetPkey k prot s =
     (if 2 * unat k \<ge> 32 then Inl ShiftRange
      else Inr (wrpkru (set_pkey_value rdpkru k prot) s))"

text \<open>The two-bit field of key \<open>k\<close> in a register value.\<close>

definition pkru_field :: "32 word \<Rightarrow> nat \<Rightarrow> 32 word" where
  "pkru_field v k = drop_bit (2 * k) v AND 3"

text \<open>
  \<^verbatim>\<open>ReadPKRU\<close> asks the host for the register: the request is 0F 01 EE in a 12-byte
  buffer, and the bytes 3..6 of the answer are read as a big-endian \<^verbatim>\<open>int\<close>. What the host
  answers may depend on its register, so the hook takes the register value first.
  \<^verbatim>\<open>WritePKRU\<close>, the request that would have the host change the register, is static and
  has no caller.
\<close>

definition ReadPKRU :: "(32 word \<Rightarrow> host) \<Rightarrow> state \<Rightarrow> retval \<times> state" where
  "ReadPKRU hr s =
     (case WASICALL (hr (host_pkru s)) ([0x0F, 0x01, 0xEE] @ replicate 9 0) of
        (error, buf) \<Rightarrow>
          if error \<noteq> 0 then (Val (- 1), s)
          else (Val (sint (foldl (\<lambda>acc i. push_bit 8 acc + ucast (buf ! i)) (0 :: 32 word)
                             [3, 4, 5, 6])), s))"

section \<open>Key assignment, switch and restore (pkuc/pku.c)\<close>

definition PKUDomainAssignPkey ::
  "int \<Rightarrow> int \<Rightarrow> int \<Rightarrow> 32 word \<Rightarrow> state \<Rightarrow> fault + retval \<times> state" where
  "PKUDomainAssignPkey d k flags AccessRights s =
     (if \<not> DomainExists (GetCurrentDid s) s then Inr (Neg EINVAL, s)
      else if \<not> DomainExists d s then Inr (Neg EINVAL, s)
      else if AccessRights AND NOT (PKEY_DISABLE_ACCESS OR PKEY_DISABLE_WRITE) \<noteq> 0
        then Inr (Neg EINVAL, s)
      else (case SetPkey (pkey (keys s ! nat d)) (perm (keys s ! nat d)) s of
              Inl f \<Rightarrow> Inl f
            | Inr s' \<Rightarrow> Inr (Val 0, s')))"

definition PKUSwitch :: "int \<Rightarrow> state \<Rightarrow> fault + retval \<times> state" where
  "PKUSwitch PKUCallID s =
     (if PKUCallID < 0 \<or> PKUCallID \<ge> int NUM_REGISTERED_PKUCALLS then Inl OutOfBounds
      else (let d = did (RegisteredPKUCalls s ! nat PKUCallID) in
            if d < 0 \<or> d \<ge> int NUM_DOMAINS then Inl OutOfBounds
            else (case SetPkey (pkey (keys s ! nat d)) (perm (keys s ! nat d)) s of
                    Inl f \<Rightarrow> Inl f
                  | Inr s' \<Rightarrow> Inr (Val 0, SetCurrentDid d s'))))"

definition PKURestore :: "int \<Rightarrow> state \<Rightarrow> fault + retval \<times> state" where
  "PKURestore d s =
     (let c = GetCurrentDid s in
      if c < 0 \<or> c \<ge> int NUM_DOMAINS then Inl OutOfBounds
      else (case SetPkey (pkey (keys s ! nat c)) (PKEY_DISABLE_ACCESS OR PKEY_DISABLE_WRITE) s of
              Inl f \<Rightarrow> Inl f
            | Inr s' \<Rightarrow> Inr (Val 0, SetCurrentDid d s')))"

section \<open>The variant in pku.c\<close>

text \<open>
  pku.c has the same \<^verbatim>\<open>DomainExists\<close>, \<^verbatim>\<open>RegisterPKUCall\<close> and \<^verbatim>\<open>SetPkey\<close>, and the
  same \<^verbatim>\<open>PKUCreateDomain\<close> but for the opcode 01 4A of its request. Its
  \<^verbatim>\<open>PKUDomainAssignPkey\<close> does not look at the current domain, its \<^verbatim>\<open>PKUSwitch\<close> does not
  record the new one, and its \<^verbatim>\<open>PKURestore\<close> only returns 0.
\<close>

definition PKUCreateDomain_alt :: "host \<Rightarrow> 32 word \<Rightarrow> state \<Rightarrow> retval \<times> state" where
  "PKUCreateDomain_alt h flags s =
     (case WASICALL h ([0x01, 0x4A] @ replicate 10 0) of
        (error, buf) \<Rightarrow>
          if error \<noteq> 0 then (Val (- 1), s)
          else if buf ! 2 \<ge> 16 then (Val 0, s)
          else (Val (uint (buf ! 2)),
                 s\<lparr>keys := (keys s)[unat (buf ! 2) :=
                      (keys s ! unat (buf ! 2))\<lparr>pkey := ucast (buf ! 2), used := True\<rparr>]\<rparr>))"

definition PKUDomainAssignPkey_alt ::
  "int \<Rightarrow> int \<Rightarrow> int \<Rightarrow> 32 word \<Rightarrow> state \<Rightarrow> fault + retval \<times> state" where
  "PKUDomainAssignPkey_alt d k flags AccessRights s =
     (if \<not> DomainExists d s then Inr (Neg EINVAL, s)
      else if AccessRights AND NOT (PKEY_DISABLE_ACCESS OR PKEY_DISABLE_WRITE) \<noteq> 0
        then Inr (Neg EINVAL, s)
      else (case SetPkey (pkey (keys s ! nat d)) (perm (keys s ! nat d)) s of
              Inl f \<Rightarrow> Inl f
            | Inr s' \<Rightarrow> Inr (Val 0, s')))"

definition PKUSwitch_alt :: "int \<Rightarrow> state \<Rightarrow> fault + retval \<times> state" where
  "PKUSwitch_alt PKUCallID s =
     (if PKUCallID < 0 \<or> PKUCallID \<ge> int NUM_REGISTERED_PKUCALLS then Inl OutOfBounds
      else (let d = did (RegisteredPKUCalls s ! nat PKUCallID) in
            if d < 0 \<or> d \<ge> int NUM_DOMAINS then Inl OutOfBounds
            else (case SetPkey (pkey (keys s ! nat d)) (perm (keys s ! nat d)) s of
                    Inl f \<Rightarrow> Inl f
                  | Inr s' \<Rightarrow> Inr (Val 0, s'))))"

definition PKURestore_alt :: "int \<Rightarrow> state \<Rightarrow> fault + retval \<times> state" where
  "PKURestore_alt d s = Inr (Val 0, s)"

section \<open>Cross-domain call\<close>

text \<open>
  The macro \<^verbatim>\<open>PKUCALL\<close> reads the current domain, calls the generated wrapper (which
  is \<^verbatim>\<open>PKUSwitch\<close> on the call id), runs the target, and calls \<^verbatim>\<open>PKURestore\<close> on the
  domain it read. \<open>switch_restore\<close> is the switch followed by the restore, with nothing
  in between.
\<close>

definition switch_restore :: "int \<Rightarrow> int \<Rightarrow> state \<Rightarrow> fault + retval \<times> state" where
  "switch_restore PKUCallID d s =
     (case PKUSwitch PKUCallID s of
        Inl f \<Rightarrow> Inl f
      | Inr (r, s') \<Rightarrow> PKURestore d s')"

definition switch_restore_alt :: "int \<Rightarrow> int \<Rightarrow> state \<Rightarrow> fault + retval \<times> state" where
  "switch_restore_alt PKUCallID d s =
     (case PKUSwitch_alt PKUCallID s of
        Inl f \<Rightarrow> Inl f
      | Inr (r, s') \<Rightarrow> PKURestore_alt d s')"

section \<open>Executions\<close>

text \<open>
  The functions of pkuc/pku.c that act on the tables, with their arguments. An execution
  is a list of such calls from the initial state; it stops at the first fault.
\<close>

datatype call =
    CallDoInit int int
  | CallPKUInit int int
  | CallPKUDeinit
  | CallPKUDomainFree int
  | CallPKUPkeyAlloc host "32 word" "32 word"
  | CallPKUPkeyFree int
  | CallPKUCreateDomain host "32 word"
  | CallRegisterPKUCall int nat
  | CallPKUDomainAssignPkey int int int "32 word"
  | CallPKUSwitch int
  | CallPKURestore int

fun step :: "call \<Rightarrow> state \<Rightarrow> fault + retval \<times> state" where
  "step (CallDoInit flags pagesize) s = Inr (DoInit flags pagesize s)"
| "step (CallPKUInit flags pagesize) s = Inr (PKUInit flags pagesize s)"
| "step CallPKUDeinit s = Inr (PKUDeinit s)"
| "step (CallPKUDomainFree d) s = PKUDomainFree d s"
| "step (CallPKUPkeyAlloc h flags ar) s = Inr (PKUPkeyAlloc h flags ar s)"
| "step (CallPKUPkeyFree k) s = PKUPkeyFree k s"
| "step (CallPKUCreateDomain h flags) s = Inr (PKUCreateDomain h flags s)"
| "step (CallRegisterPKUCall d e) s = Inr (RegisterPKUCall d e s)"
| "step (CallPKUDomainAssignPkey d k flags ar) s = PKUDomainAssignPkey d k flags ar s"
| "step (CallPKUSwitch i) s = PKUSwitch i s"
| "step (CallPKURestore d) s = PKURestore d s"

fun run :: "call list \<Rightarrow> state \<Rightarrow> fault + state" where
  "run [] s = Inr s"
| "run (c # cs) s =
     (case step c s of
        Inl f \<Rightarrow> Inl f
      | Inr (r, s') \<Rightarrow> run cs s')"

text \<open>What every execution keeps true of the tables.\<close>

definition registry_inv :: "state \<Rightarrow> bool" where
  "registry_inv s \<longleftrightarrow>
     wf_state s \<and>
     used (keys s ! 0) \<and>
     (\<forall>k \<in> set (keys s). perm k = 0 \<and> unat (pkey k) < NUM_DOMAINS) \<and>
     (\<forall>c \<in> set (RegisteredPKUCalls s).
        0 \<le> did c \<and> did c < int NUM_DOMAINS \<and> used (keys s ! nat (did c))) \<and>
     (\<forall>d \<in> set (domains (g_data s)). pkey d = 0 \<and> perm d = 0 \<and> \<not> used d) \<and>
     (\<forall>r \<in> set (ranges (g_data s)). \<not> r_used r)"

text \<open>A host hook that answers with no error and the given key in byte 2.\<close>

definition grant :: "8 word \<Rightarrow> host" where
  "grant k buf = (0, buf[2 := k])"

section \<open>An example execution\<close>

text \<open>
  Initialise with page size 4096, create a domain (the host grants key 1), register a call
  with entry address 7 for it. \<open>gate_state\<close> is the state this reaches from
  \<open>initial_state 0\<close>.
\<close>

definition setup_calls :: "call list" where
  "setup_calls = [CallPKUInit 0 4096, CallPKUCreateDomain (grant 1) 0, CallRegisterPKUCall 1 7]"

definition gate_state :: state where
  "gate_state =
     (initial_state 0)
       \<lparr>keys := (keys (initial_state 0))[1 := \<lparr>pkey = 1, perm = 0, used = True\<rparr>],
        RegisteredPKUCalls := (RegisteredPKUCalls (initial_state 0))[0 := \<lparr>did = 1, entry = 7\<rparr>],
        g_initialized := 1,
        g_data := (g_data (initial_state 0))\<lparr>initialized := 1\<rparr>\<rparr>"

text \<open>
  The example state with a cleanup callback configured (at address 9) and two ranges
  marked used, in slots 3 and 5.
\<close>

definition sweep_state :: state where
  "sweep_state =
     gate_state\<lparr>g_data := (g_data gate_state)
       \<lparr>UserHandler := 9,
        ranges := (ranges (g_data gate_state))
          [3 := zero_range\<lparr>r_addr := 4096, r_used := True\<rparr>,
           5 := zero_range\<lparr>r_addr := 8192, r_used := True\<rparr>]\<rparr>\<rparr>"

text \<open>The same with one range marked used, in slot 16.\<close>

definition high_range_state :: state where
  "high_range_state =
     gate_state\<lparr>g_data := (g_data gate_state)
       \<lparr>UserHandler := 9,
        ranges := (ranges (g_data gate_state))
          [16 := zero_range\<lparr>r_addr := 65536, r_used := True\<rparr>]\<rparr>\<rparr>"


text \<open>
  A host hook for the read request that answers without error and with the register
  big-endian in the bytes 3..6.
\<close>

definition read_host :: "32 word \<Rightarrow> host" where
  "read_host p buf =
     (0, buf[3 := ucast (drop_bit 24 p), 4 := ucast (drop_bit 16 p),
             5 := ucast (drop_bit 8 p), 6 := ucast p])"

section \<open>The loops\<close>

declare scan_calls.simps [simp del]

lemma scan_calls_found:
  "i \<le> k \<Longrightarrow> k < NUM_REGISTERED_PKUCALLS \<Longrightarrow> entry (cs ! k) = 0 \<Longrightarrow>
   (\<forall>j. i \<le> j \<and> j < k \<longrightarrow> entry (cs ! j) \<noteq> 0) \<Longrightarrow> scan_calls i cs = k"
proof (induction i cs rule: scan_calls.induct)
  case (1 i cs)
  show ?case
  proof (cases "i = k")
    case True
    with 1 show ?thesis by (simp add: scan_calls.simps [of k])
  next
    case False
    with 1 have "i < k" by simp
    with 1 have ne: "entry (cs ! i) \<noteq> 0" by simp
    from \<open>i < k\<close> 1 have "scan_calls (Suc i) cs = k" by simp
    with ne \<open>i < k\<close> 1 show ?thesis by (simp add: scan_calls.simps [of i])
  qed
qed

lemma scan_calls_full:
  "i \<le> NUM_REGISTERED_PKUCALLS \<Longrightarrow>
   (\<forall>j. i \<le> j \<and> j < NUM_REGISTERED_PKUCALLS \<longrightarrow> entry (cs ! j) \<noteq> 0) \<Longrightarrow>
   scan_calls i cs = NUM_REGISTERED_PKUCALLS"
proof (induction i cs rule: scan_calls.induct)
  case (1 i cs)
  show ?case
  proof (cases "i < NUM_REGISTERED_PKUCALLS")
    case True
    with 1 show ?thesis by (simp add: scan_calls.simps [of i])
  next
    case False
    with 1 have "i = NUM_REGISTERED_PKUCALLS" by simp
    then show ?thesis by (subst scan_calls.simps) simp
  qed
qed

lemma PKUCall_overwrite: "(c :: PKUCall)\<lparr>did := d, entry := e\<rparr> = \<lparr>did = d, entry = e\<rparr>"
  by (cases c) simp

declare any_domain_used.simps [simp del]

declare any_range_used.simps [simp del]

declare sweep_ranges.simps [simp del]

declare revoke_domains.simps [simp del]

lemma any_domain_used_iff:
  "any_domain_used i s \<longleftrightarrow> (\<exists>j. i \<le> j \<and> j < NUM_DOMAINS \<and> used (domains (g_data s) ! j))"
proof (induction i s rule: any_domain_used.induct)
  case (1 i s)
  show ?case
  proof (cases "i < NUM_DOMAINS")
    case False
    then show ?thesis by (subst any_domain_used.simps) auto
  next
    case True
    show ?thesis
    proof (cases "used (domains (g_data s) ! i)")
      case True
      with \<open>i < NUM_DOMAINS\<close> show ?thesis
        by (subst any_domain_used.simps) auto
    next
      case False
      with \<open>i < NUM_DOMAINS\<close> 1 have
        "any_domain_used i s \<longleftrightarrow> (\<exists>j. Suc i \<le> j \<and> j < NUM_DOMAINS \<and> used (domains (g_data s) ! j))"
        by (subst any_domain_used.simps) simp
      also have "\<dots> \<longleftrightarrow> (\<exists>j. i \<le> j \<and> j < NUM_DOMAINS \<and> used (domains (g_data s) ! j))"
        using False by (metis Suc_leI le_neq_implies_less Suc_leD)
      finally show ?thesis .
    qed
  qed
qed

lemma any_range_used_iff:
  "any_range_used i s \<longleftrightarrow> (\<exists>j. i \<le> j \<and> j < NUM_DOMAINS \<and> r_used (ranges (g_data s) ! j))"
proof (induction i s rule: any_range_used.induct)
  case (1 i s)
  show ?case
  proof (cases "i < NUM_DOMAINS")
    case False
    then show ?thesis by (subst any_range_used.simps) auto
  next
    case True
    show ?thesis
    proof (cases "r_used (ranges (g_data s) ! i)")
      case True
      with \<open>i < NUM_DOMAINS\<close> show ?thesis
        by (subst any_range_used.simps) auto
    next
      case False
      with \<open>i < NUM_DOMAINS\<close> 1 have
        "any_range_used i s \<longleftrightarrow> (\<exists>j. Suc i \<le> j \<and> j < NUM_DOMAINS \<and> r_used (ranges (g_data s) ! j))"
        by (subst any_range_used.simps) simp
      also have "\<dots> \<longleftrightarrow> (\<exists>j. i \<le> j \<and> j < NUM_DOMAINS \<and> r_used (ranges (g_data s) ! j))"
        using False by (metis Suc_leI le_neq_implies_less Suc_leD)
      finally show ?thesis .
    qed
  qed
qed

lemma sweep_ranges_log:
  "UserHandler (g_data s) \<noteq> 0 \<Longrightarrow> length (ranges (g_data s)) = NUM_MPROTECT_RANGES \<Longrightarrow>
   sweep_ranges i s =
     Inr (s\<lparr>handler_calls :=
            handler_calls s @ map r_addr (filter r_used (drop i (ranges (g_data s))))\<rparr>)"
proof (induction i s rule: sweep_ranges.induct)
  case (1 rid s)
  show ?case
  proof (cases "rid < NUM_MPROTECT_RANGES")
    case False
    with 1 show ?thesis by (subst sweep_ranges.simps) simp
  next
    case True
    with 1 have d: "drop rid (ranges (g_data s)) =
        ranges (g_data s) ! rid # drop (Suc rid) (ranges (g_data s))"
      by (simp add: Cons_nth_drop_Suc)
    show ?thesis
    proof (cases "r_used (ranges (g_data s) ! rid)")
      case True
      with \<open>rid < NUM_MPROTECT_RANGES\<close> 1 d show ?thesis
        by (subst sweep_ranges.simps) simp
    next
      case False
      with \<open>rid < NUM_MPROTECT_RANGES\<close> 1 d show ?thesis
        by (subst sweep_ranges.simps) simp
    qed
  qed
qed

lemma sweep_ranges_none:
  "(\<forall>j. i \<le> j \<and> j < NUM_MPROTECT_RANGES \<longrightarrow> \<not> r_used (ranges (g_data s) ! j)) \<Longrightarrow>
   sweep_ranges i s = Inr s"
proof (induction i s rule: sweep_ranges.induct)
  case (1 rid s)
  show ?case
  proof (cases "rid < NUM_MPROTECT_RANGES")
    case False
    then show ?thesis by (subst sweep_ranges.simps) simp
  next
    case True
    with 1 have "\<not> r_used (ranges (g_data s) ! rid)" by simp
    moreover from this True 1 have "sweep_ranges (Suc rid) s = Inr s" by simp
    ultimately show ?thesis using True by (subst sweep_ranges.simps) simp
  qed
qed

lemma sweep_ranges_null:
  "UserHandler (g_data s) = 0 \<Longrightarrow> i \<le> j \<Longrightarrow> j < NUM_MPROTECT_RANGES \<Longrightarrow>
   r_used (ranges (g_data s) ! j) \<Longrightarrow> sweep_ranges i s = Inl NullCall"
proof (induction i s rule: sweep_ranges.induct)
  case (1 rid s)
  then have lt: "rid < NUM_MPROTECT_RANGES" by simp
  show ?case
  proof (cases "r_used (ranges (g_data s) ! rid)")
    case True
    with lt 1 show ?thesis by (subst sweep_ranges.simps) simp
  next
    case False
    with 1 have "rid \<noteq> j" by auto
    with 1 have "Suc rid \<le> j" by simp
    with False lt 1 have "sweep_ranges (Suc rid) s = Inl NullCall" by simp
    with False lt show ?thesis by (subst sweep_ranges.simps) simp
  qed
qed

lemma revoke_domains_eq:
  "length (domains (g_data s)) = NUM_DOMAINS \<Longrightarrow>
   revoke_domains i s =
     s\<lparr>g_data := (g_data s)\<lparr>domains :=
          take i (domains (g_data s)) @
          map (\<lambda>d. d\<lparr>used := False\<rparr>) (drop i (domains (g_data s)))\<rparr>\<rparr>"
proof (induction i s rule: revoke_domains.induct)
  case (1 i s)
  show ?case
  proof (cases "i < NUM_DOMAINS")
    case False
    with 1 show ?thesis by (subst revoke_domains.simps) simp
  next
    case True
    let ?ds = "domains (g_data s)"
    from True 1 have d: "drop i ?ds = ?ds ! i # drop (Suc i) ?ds"
      by (simp add: Cons_nth_drop_Suc)
    from True 1 have t: "take (Suc i) ?ds = take i ?ds @ [?ds ! i]"
      by (simp add: take_Suc_conv_app_nth)
    show ?thesis
    proof (cases "used (?ds ! i)")
      case True
      with \<open>i < NUM_DOMAINS\<close> 1 d show ?thesis
        by (subst revoke_domains.simps) (simp add: take_Suc_conv_app_nth upd_conv_take_nth_drop)
    next
      case False
      then have "(?ds ! i)\<lparr>used := False\<rparr> = ?ds ! i" by (cases "?ds ! i") simp
      with False \<open>i < NUM_DOMAINS\<close> 1 d t show ?thesis
        by (subst revoke_domains.simps) simp
    qed
  qed
qed

section \<open>An invariant of every execution\<close>

lemma NUM_DOMAINS_pos: "0 < NUM_DOMAINS"
  by (simp add: NUM_DOMAINS_def)

lemma wf_initial: "wf_state (initial_state p0)"
  by (simp add: wf_state_def initial_state_def PKUInitCtor_def zero_state_def)

lemma registry_inv_initial: "registry_inv (initial_state p0)"
proof -
  let ?k0 = "(replicate NUM_DOMAINS zero_key ! 0)\<lparr>perm := 0, pkey := 0, used := True\<rparr>"
  have ks: "keys (initial_state p0) = (replicate NUM_DOMAINS zero_key)[0 := ?k0]"
    by (simp add: initial_state_def PKUInitCtor_def zero_state_def)
  have cs: "RegisteredPKUCalls (initial_state p0) = replicate NUM_REGISTERED_PKUCALLS zero_call"
    by (simp add: initial_state_def PKUInitCtor_def zero_state_def)
  have ds: "domains (g_data (initial_state p0)) = replicate NUM_DOMAINS zero_key"
    by (simp add: initial_state_def PKUInitCtor_def zero_state_def)
  have rs: "ranges (g_data (initial_state p0)) = replicate NUM_MPROTECT_RANGES zero_range"
    by (simp add: initial_state_def PKUInitCtor_def zero_state_def)
  have u0: "used (keys (initial_state p0) ! 0)"
    unfolding ks using NUM_DOMAINS_pos by simp
  have "set ((replicate NUM_DOMAINS zero_key)[0 := ?k0])
      \<subseteq> insert ?k0 (set (replicate NUM_DOMAINS zero_key))"
    by (rule set_update_subset_insert)
  then have k1: "\<forall>k \<in> set (keys (initial_state p0)). perm k = 0 \<and> unat (pkey k) < NUM_DOMAINS"
    unfolding ks using NUM_DOMAINS_pos by (auto simp: zero_key_def)
  have c1: "\<forall>c \<in> set (RegisteredPKUCalls (initial_state p0)).
        0 \<le> did c \<and> did c < int NUM_DOMAINS \<and> used (keys (initial_state p0) ! nat (did c))"
    unfolding cs using u0 NUM_DOMAINS_pos by (auto simp: zero_call_def)
  have d1: "\<forall>d \<in> set (domains (g_data (initial_state p0))). pkey d = 0 \<and> perm d = 0 \<and> \<not> used d"
    unfolding ds by (auto simp: zero_key_def)
  have r1: "\<forall>r \<in> set (ranges (g_data (initial_state p0))). \<not> r_used r"
    unfolding rs by (auto simp: zero_range_def)
  from wf_initial u0 k1 c1 d1 r1 show ?thesis
    unfolding registry_inv_def by blast
qed

lemma byte_key_bound: "(b :: 8 word) < 16 \<Longrightarrow> unat (ucast b :: 16 word) < 16 \<and> unat b < 16"
proof -
  assume "b < 16"
  then have u: "unat b < 16" by (simp add: word_less_nat_alt)
  have "unat (ucast b :: 16 word) = take_bit 16 (unat b)"
    by (simp add: unsigned_ucast_eq)
  also have "\<dots> = unat b" using u by (simp add: take_bit_nat_eq_self_iff)
  finally show ?thesis using u by simp
qed

lemma registry_inv_frame [simp]:
  "registry_inv (s\<lparr>pkru := a\<rparr>) = registry_inv s"
  "registry_inv (s\<lparr>current_did := b\<rparr>) = registry_inv s"
  "registry_inv (s\<lparr>errno := c\<rparr>) = registry_inv s"
  "registry_inv (s\<lparr>g_initialized := d\<rparr>) = registry_inv s"
  "registry_inv (s\<lparr>handler_calls := e\<rparr>) = registry_inv s"
  "registry_inv (s\<lparr>g_data := (g_data s)\<lparr>initialized := f\<rparr>\<rparr>) = registry_inv s"
  by (simp_all add: registry_inv_def wf_state_def)

lemma DoInit_inv: "registry_inv s \<Longrightarrow> registry_inv (snd (DoInit f p s))"
  by (simp add: DoInit_def)

lemma PKUInit_inv: "registry_inv s \<Longrightarrow> registry_inv (snd (PKUInit f p s))"
  by (simp add: PKUInit_def DoInit_def)

lemma PKUCreateDomain_inv:
  assumes "registry_inv s"
  shows "registry_inv (snd (PKUCreateDomain h f s))"
proof -
  obtain e buf where w: "WASICALL h ([0x01, 0x21] @ replicate 10 0) = (e, buf)"
    by (cases "WASICALL h ([0x01, 0x21] @ replicate 10 0)")
  show ?thesis
  proof (cases "e \<noteq> 0 \<or> buf ! 2 \<ge> 16")
    case True
    with w assms show ?thesis by (auto simp: PKUCreateDomain_def)
  next
    case False
    then have b: "buf ! 2 < 16" and e: "e = 0" by (auto simp: not_le)
    let ?i = "unat (buf ! 2)"
    let ?k = "(keys s ! ?i)\<lparr>pkey := ucast (buf ! 2), used := True\<rparr>"
    from b have bb: "unat (ucast (buf ! 2) :: 16 word) < 16" "?i < 16"
      using byte_key_bound by blast+
    have s': "snd (PKUCreateDomain h f s) = s\<lparr>keys := (keys s)[?i := ?k]\<rparr>"
      using w b e by (simp add: PKUCreateDomain_def not_le [symmetric])
    from assms have len: "length (keys s) = 16"
      by (simp add: registry_inv_def wf_state_def NUM_DOMAINS_def)
    have ki: "keys s ! ?i \<in> set (keys s)" using bb len by simp
    have sub: "set ((keys s)[?i := ?k]) \<subseteq> insert ?k (set (keys s))"
      by (rule set_update_subset_insert)
    have usedmono: "\<And>j. j < 16 \<Longrightarrow> used (keys s ! j) \<Longrightarrow> used ((keys s)[?i := ?k] ! j)"
      using len bb by (simp add: nth_list_update)
    have k1: "\<forall>k \<in> set ((keys s)[?i := ?k]). perm k = 0 \<and> unat (pkey k) < NUM_DOMAINS"
      using sub assms ki bb by (auto simp: registry_inv_def NUM_DOMAINS_def)
    have k2: "\<forall>c \<in> set (RegisteredPKUCalls s).
        0 \<le> did c \<and> did c < int NUM_DOMAINS \<and> used ((keys s)[?i := ?k] ! nat (did c))"
      using assms usedmono by (auto simp: registry_inv_def NUM_DOMAINS_def)
    have k0: "used ((keys s)[?i := ?k] ! 0)"
      using assms usedmono [of 0] by (simp add: registry_inv_def)
    from assms k0 k1 k2 show ?thesis
      unfolding s' by (simp add: registry_inv_def wf_state_def)
  qed
qed

lemma PKUPkeyAlloc_inv: "registry_inv s \<Longrightarrow> registry_inv (snd (PKUPkeyAlloc h f a s))"
  using PKUCreateDomain_inv [of s h f]
  by (simp add: PKUPkeyAlloc_def)

lemma RegisterPKUCall_inv:
  assumes "registry_inv s"
  shows "registry_inv (snd (RegisterPKUCall d e s))"
proof (cases "fst (RegisterPKUCall d e s)")
  case (Neg x)
  then have "snd (RegisterPKUCall d e s) = s"
    by (auto simp: RegisterPKUCall_def Let_def split: if_splits)
  with assms show ?thesis by simp
next
  case (Val i)
  let ?n = "scan_calls 0 (RegisteredPKUCalls s)"
  let ?c = "(RegisteredPKUCalls s ! ?n)\<lparr>did := d, entry := e\<rparr>"
  from Val have ex: "DomainExists d s"
    and s': "snd (RegisterPKUCall d e s) = s\<lparr>RegisteredPKUCalls := (RegisteredPKUCalls s)[?n := ?c]\<rparr>"
    by (auto simp: RegisterPKUCall_def Let_def split: if_splits)
  have sub: "set ((RegisteredPKUCalls s)[?n := ?c]) \<subseteq> insert ?c (set (RegisteredPKUCalls s))"
    by (rule set_update_subset_insert)
  have "\<forall>c \<in> set ((RegisteredPKUCalls s)[?n := ?c]).
        0 \<le> did c \<and> did c < int NUM_DOMAINS \<and> used (keys s ! nat (did c))"
    using sub assms ex by (auto simp: registry_inv_def DomainExists_def)
  with assms show ?thesis unfolding s' by (simp add: registry_inv_def wf_state_def)
qed

lemma SetPkey_tables:
  "SetPkey k p s = Inr s' \<Longrightarrow> s' = s\<lparr>pkru := set_pkey_value 0 k p\<rparr>"
  by (auto simp: SetPkey_def wrpkru_def rdpkru_def split: if_splits)

lemma PKUDomainAssignPkey_inv:
  "registry_inv s \<Longrightarrow> PKUDomainAssignPkey d k f a s = Inr (r, s') \<Longrightarrow> registry_inv s'"
  by (auto simp: PKUDomainAssignPkey_def split: if_splits sum.splits
      dest!: SetPkey_tables)

lemma PKUSwitch_inv:
  "registry_inv s \<Longrightarrow> PKUSwitch i s = Inr (r, s') \<Longrightarrow> registry_inv s'"
  by (auto simp: PKUSwitch_def Let_def SetCurrentDid_def split: if_splits sum.splits
      dest!: SetPkey_tables)

lemma PKURestore_inv:
  "registry_inv s \<Longrightarrow> PKURestore d s = Inr (r, s') \<Longrightarrow> registry_inv s'"
  by (auto simp: PKURestore_def Let_def SetCurrentDid_def split: if_splits sum.splits
      dest!: SetPkey_tables)

lemma inv_no_range_used:
  "registry_inv s \<Longrightarrow> j < NUM_MPROTECT_RANGES \<Longrightarrow> \<not> r_used (ranges (g_data s) ! j)"
  by (simp add: registry_inv_def wf_state_def)

lemma inv_no_domain_used:
  "registry_inv s \<Longrightarrow> j < NUM_DOMAINS \<Longrightarrow> \<not> used (domains (g_data s) ! j)"
  by (simp add: registry_inv_def wf_state_def)

lemma inv_sweep: "registry_inv s \<Longrightarrow> sweep_ranges 0 s = Inr s"
  by (rule sweep_ranges_none) (simp add: inv_no_range_used)

lemma inv_revoke: "registry_inv s \<Longrightarrow> revoke_domains 0 s = s"
proof -
  assume i: "registry_inv s"
  then have "map (\<lambda>d. d\<lparr>used := False\<rparr>) (domains (g_data s)) = domains (g_data s)"
    by (intro map_idI) (auto simp: registry_inv_def)
  with i show ?thesis
    by (simp add: revoke_domains_eq registry_inv_def wf_state_def)
qed

lemma PKUDomainFree_inv:
  assumes "registry_inv s" and "PKUDomainFree d s = Inr (r, s')"
  shows "registry_inv s'"
proof (cases "r = Val 0")
  case False
  with assms have "s' = s \<or> s' = s\<lparr>errno := Some EINVAL\<rparr>"
    by (auto simp: PKUDomainFree_def inv_sweep split: if_splits)
  with assms(1) show ?thesis by auto
next
  case True
  let ?ds = "domains (g_data s)"
  let ?z = "(?ds ! nat d)\<lparr>pkey := 0, perm := 0, used := False\<rparr>"
  from True assms have s': "s' = s\<lparr>g_data := (g_data s)\<lparr>domains := ?ds[nat d := ?z]\<rparr>\<rparr>"
    by (auto simp: PKUDomainFree_def inv_sweep split: if_splits)
  have sub: "set (?ds[nat d := ?z]) \<subseteq> insert ?z (set ?ds)"
    by (rule set_update_subset_insert)
  have "\<forall>d \<in> set (?ds[nat d := ?z]). pkey d = 0 \<and> perm d = 0 \<and> \<not> used d"
    using sub assms(1) by (auto simp: registry_inv_def)
  with assms(1) show ?thesis unfolding s' by (simp add: registry_inv_def wf_state_def)
qed

lemma PKUPkeyFree_inv:
  assumes "registry_inv s" and "PKUPkeyFree k s = Inr (r, s')"
  shows "registry_inv s'"
proof -
  have "NUM_DOMAINS \<le> NUM_MPROTECT_RANGES"
    by (simp add: NUM_DOMAINS_def NUM_MPROTECT_RANGES_def)
  with assms(1) have nr: "\<not> any_range_used 0 s"
    by (auto simp: any_range_used_iff registry_inv_def wf_state_def)
  show ?thesis
  proof (cases "g_LazyFree s")
    case True
    with nr assms show ?thesis by (simp add: PKUPkeyFree_def inv_revoke)
  next
    case False
    with nr assms have "PKUDomainFree k s = Inr (r, s')"
      by (simp add: PKUPkeyFree_def inv_revoke)
    with assms(1) show ?thesis by (rule PKUDomainFree_inv)
  qed
qed

lemma step_inv: "registry_inv s \<Longrightarrow> step c s = Inr (r, s') \<Longrightarrow> registry_inv s'"
proof (cases c)
  case (CallDoInit f p)
  assume "registry_inv s" "step c s = Inr (r, s')"
  with CallDoInit DoInit_inv [of s f p] show ?thesis by auto
next
  case (CallPKUInit f p)
  assume "registry_inv s" "step c s = Inr (r, s')"
  with CallPKUInit PKUInit_inv [of s f p] show ?thesis by auto
next
  case CallPKUDeinit
  assume "registry_inv s" "step c s = Inr (r, s')"
  with CallPKUDeinit show ?thesis by (auto simp: PKUDeinit_def)
next
  case (CallPKUDomainFree d)
  assume "registry_inv s" "step c s = Inr (r, s')"
  with CallPKUDomainFree show ?thesis by (auto intro: PKUDomainFree_inv)
next
  case (CallPKUPkeyAlloc h f a)
  assume "registry_inv s" "step c s = Inr (r, s')"
  with CallPKUPkeyAlloc PKUPkeyAlloc_inv [of s h f a] show ?thesis by auto
next
  case (CallPKUPkeyFree k)
  assume "registry_inv s" "step c s = Inr (r, s')"
  with CallPKUPkeyFree show ?thesis by (auto intro: PKUPkeyFree_inv)
next
  case (CallPKUCreateDomain h f)
  assume "registry_inv s" "step c s = Inr (r, s')"
  with CallPKUCreateDomain PKUCreateDomain_inv [of s h f] show ?thesis by auto
next
  case (CallRegisterPKUCall d e)
  assume "registry_inv s" "step c s = Inr (r, s')"
  with CallRegisterPKUCall RegisterPKUCall_inv [of s d e] show ?thesis by auto
next
  case (CallPKUDomainAssignPkey d k f a)
  assume "registry_inv s" "step c s = Inr (r, s')"
  with CallPKUDomainAssignPkey show ?thesis by (auto intro: PKUDomainAssignPkey_inv)
next
  case (CallPKUSwitch i)
  assume "registry_inv s" "step c s = Inr (r, s')"
  with CallPKUSwitch show ?thesis by (auto intro: PKUSwitch_inv)
next
  case (CallPKURestore d)
  assume "registry_inv s" "step c s = Inr (r, s')"
  with CallPKURestore show ?thesis by (auto intro: PKURestore_inv)
qed

lemma run_inv: "registry_inv s \<Longrightarrow> run cs s = Inr s' \<Longrightarrow> registry_inv s'"
proof (induction cs arbitrary: s)
  case Nil
  then show ?case by simp
next
  case (Cons c cs)
  then show ?case
    by (auto split: sum.splits dest: step_inv)
qed

lemma reachable_inv: "run cs (initial_state p0) = Inr s \<Longrightarrow> registry_inv s"
  using registry_inv_initial run_inv by blast

section \<open>The initial state\<close>

lemma initial_keys_0: "keys (initial_state p0) ! 0 = \<lparr>pkey = 0, perm = 0, used = True\<rparr>"
  using NUM_DOMAINS_pos
  by (simp add: initial_state_def PKUInitCtor_def zero_state_def zero_key_def)

lemma initial_keys_other:
  "0 < j \<Longrightarrow> j < NUM_DOMAINS \<Longrightarrow> keys (initial_state p0) ! j = zero_key"
  by (simp add: initial_state_def PKUInitCtor_def zero_state_def)

lemma initial_calls:
  "j < NUM_REGISTERED_PKUCALLS \<Longrightarrow> RegisteredPKUCalls (initial_state p0) ! j = zero_call"
  by (simp add: initial_state_def PKUInitCtor_def zero_state_def)

section \<open>Registering a call\<close>

text \<open>
  C9. \<^verbatim>\<open>RegisterPKUCall(did, entry)\<close> returns \<^verbatim>\<open>-EINVAL\<close> and changes nothing when
  \<open>did\<close> does not exist. When it exists, the pair \<open>(did, entry)\<close> goes into the
  lowest-indexed slot whose entry is null and that index is returned. When all 64 slots
  have a non-null entry, the call fails with \<^verbatim>\<open>-EACCES\<close> and no slot is written.
\<close>

theorem RegisterPKUCall_spec:
  "(\<not> DomainExists d s \<longrightarrow> RegisterPKUCall d e s = (Neg EINVAL, s)) \<and>
   (DomainExists d s \<longrightarrow>
      (\<forall>i < NUM_REGISTERED_PKUCALLS.
         entry (RegisteredPKUCalls s ! i) = 0 \<and>
         (\<forall>j < i. entry (RegisteredPKUCalls s ! j) \<noteq> 0) \<longrightarrow>
         RegisterPKUCall d e s =
           (Val (int i),
            s\<lparr>RegisteredPKUCalls := (RegisteredPKUCalls s)[i := \<lparr>did = d, entry = e\<rparr>]\<rparr>))) \<and>
   (DomainExists d s \<and> (\<forall>i < NUM_REGISTERED_PKUCALLS. entry (RegisteredPKUCalls s ! i) \<noteq> 0) \<longrightarrow>
      RegisterPKUCall d e s = (Neg EACCES, s))"
proof (intro conjI impI allI)
  assume "\<not> DomainExists d s"
  then show "RegisterPKUCall d e s = (Neg EINVAL, s)" by (simp add: RegisterPKUCall_def)
next
  fix i
  assume ex: "DomainExists d s" and i: "i < NUM_REGISTERED_PKUCALLS"
    and h: "entry (RegisteredPKUCalls s ! i) = 0 \<and> (\<forall>j < i. entry (RegisteredPKUCalls s ! j) \<noteq> 0)"
  then have "scan_calls 0 (RegisteredPKUCalls s) = i"
    by (intro scan_calls_found) auto
  with ex i h show "RegisterPKUCall d e s =
           (Val (int i),
            s\<lparr>RegisteredPKUCalls := (RegisteredPKUCalls s)[i := \<lparr>did = d, entry = e\<rparr>]\<rparr>)"
    by (simp add: RegisterPKUCall_def PKUCall_overwrite)
next
  assume "DomainExists d s \<and> (\<forall>i < NUM_REGISTERED_PKUCALLS. entry (RegisteredPKUCalls s ! i) \<noteq> 0)"
  then have ex: "DomainExists d s" and "scan_calls 0 (RegisteredPKUCalls s) = NUM_REGISTERED_PKUCALLS"
    by (auto intro: scan_calls_full)
  then show "RegisterPKUCall d e s = (Neg EACCES, s)"
    by (simp add: RegisterPKUCall_def)
qed

theorem RegisterPKUCall_spec_witness:
  "\<not> DomainExists 5 (initial_state 0) \<and>
   RegisterPKUCall 5 7 (initial_state 0) = (Neg EINVAL, initial_state 0) \<and>
   DomainExists 0 (initial_state 0) \<and>
   RegisterPKUCall 0 7 (initial_state 0) =
     (Val 0, (initial_state 0)\<lparr>RegisteredPKUCalls :=
        (RegisteredPKUCalls (initial_state 0))[0 := \<lparr>did = 0, entry = 7\<rparr>]\<rparr>) \<and>
   RegisterPKUCall 0 7
     ((initial_state 0)\<lparr>RegisteredPKUCalls :=
        replicate NUM_REGISTERED_PKUCALLS \<lparr>did = 0, entry = 3\<rparr>\<rparr>) =
     (Neg EACCES,
      (initial_state 0)\<lparr>RegisteredPKUCalls :=
        replicate NUM_REGISTERED_PKUCALLS \<lparr>did = 0, entry = 3\<rparr>\<rparr>)"
proof -
  let ?s = "initial_state 0"
  let ?full = "?s\<lparr>RegisteredPKUCalls := replicate NUM_REGISTERED_PKUCALLS \<lparr>did = 0, entry = 3\<rparr>\<rparr>"
  have n5: "\<not> DomainExists 5 ?s"
    by (simp add: DomainExists_def initial_keys_other NUM_DOMAINS_def zero_key_def)
  have e0: "DomainExists 0 ?s"
    by (simp add: DomainExists_def initial_keys_0 NUM_DOMAINS_def)
  have e0f: "DomainExists 0 ?full"
    using e0 by (simp add: DomainExists_def)
  have free0: "entry (RegisteredPKUCalls ?s ! 0) = 0 \<and>
      (\<forall>j < 0. entry (RegisteredPKUCalls ?s ! j) \<noteq> 0)"
    by (simp add: initial_calls NUM_REGISTERED_PKUCALLS_def zero_call_def)
  have full: "\<forall>i < NUM_REGISTERED_PKUCALLS. entry (RegisteredPKUCalls ?full ! i) \<noteq> 0"
    by simp
  have pos: "0 < NUM_REGISTERED_PKUCALLS"
    by (simp add: NUM_REGISTERED_PKUCALLS_def)
  from RegisterPKUCall_spec [of 5 ?s 7] n5
  have a: "RegisterPKUCall 5 7 ?s = (Neg EINVAL, ?s)" by blast
  from RegisterPKUCall_spec [of 0 ?s 7] e0 free0 pos
  have b: "RegisterPKUCall 0 7 ?s =
     (Val (int 0), ?s\<lparr>RegisteredPKUCalls := (RegisteredPKUCalls ?s)[0 := \<lparr>did = 0, entry = 7\<rparr>]\<rparr>)"
    by blast
  from RegisterPKUCall_spec [of 0 ?full 7] e0f full
  have c: "RegisterPKUCall 0 7 ?full = (Neg EACCES, ?full)" by blast
  from n5 a e0 b c show ?thesis by simp
qed

section \<open>Facts about the example execution\<close>

lemma WASICALL_grant: "WASICALL (grant k) buf = (0, buf[2 := k])"
  by (simp add: WASICALL_def grant_def)

lemma PKUCreateDomain_grant:
  "k < 16 \<Longrightarrow>
   PKUCreateDomain (grant k) flags s =
     (Val (uint k),
      s\<lparr>keys := (keys s)[unat k := (keys s ! unat k)\<lparr>pkey := ucast k, used := True\<rparr>]\<rparr>)"
  by (simp add: PKUCreateDomain_def WASICALL_grant not_le [symmetric])

lemma PKUCreateDomain_denied:
  "16 \<le> k \<Longrightarrow> PKUCreateDomain (grant k) flags s = (Val 0, s)"
  by (simp add: PKUCreateDomain_def WASICALL_grant)

lemma initial_flags:
  "g_initialized (initial_state p0) = 0" "initialized (g_data (initial_state p0)) = 0"
  "current_did (initial_state p0) = 0" "pkru (initial_state p0) = 0"
  "host_pkru (initial_state p0) = p0"
  "g_LazyFree (initial_state p0) = False" "UserHandler (g_data (initial_state p0)) = 0"
  by (simp_all add: initial_state_def PKUInitCtor_def zero_state_def)

lemma initial_lengths:
  "length (keys (initial_state p0)) = NUM_DOMAINS"
  "length (RegisteredPKUCalls (initial_state p0)) = NUM_REGISTERED_PKUCALLS"
  "length (domains (g_data (initial_state p0))) = NUM_DOMAINS"
  "length (ranges (g_data (initial_state p0))) = NUM_MPROTECT_RANGES"
  using wf_initial [of p0] by (simp_all add: wf_state_def)

lemma gate_keys:
  "keys gate_state ! 0 = \<lparr>pkey = 0, perm = 0, used = True\<rparr>"
  "keys gate_state ! Suc 0 = \<lparr>pkey = 1, perm = 0, used = True\<rparr>"
  by (simp_all add: gate_state_def initial_lengths initial_keys_0 NUM_DOMAINS_def)

lemma gate_calls:
  "RegisteredPKUCalls gate_state ! 0 = \<lparr>did = 1, entry = 7\<rparr>"
  "0 < j \<Longrightarrow> j < NUM_REGISTERED_PKUCALLS \<Longrightarrow> RegisteredPKUCalls gate_state ! j = zero_call"
  by (simp_all add: gate_state_def initial_lengths initial_calls NUM_REGISTERED_PKUCALLS_def)

lemma gate_flags:
  "g_initialized gate_state = 1" "initialized (g_data gate_state) = 1"
  "current_did gate_state = 0" "pkru gate_state = 0" "g_LazyFree gate_state = False"
  "host_pkru gate_state = 0"
  "UserHandler (g_data gate_state) = 0"
  "domains (g_data gate_state) = domains (g_data (initial_state 0))"
  "ranges (g_data gate_state) = ranges (g_data (initial_state 0))"
  by (simp_all add: gate_state_def initial_flags)

lemma run_setup: "run setup_calls (initial_state 0) = Inr gate_state"
proof -
  let ?s0 = "initial_state 0"
  let ?s1 = "?s0\<lparr>g_data := (g_data ?s0)\<lparr>initialized := 1\<rparr>, g_initialized := 1\<rparr>"
  let ?s2 = "?s1\<lparr>keys := (keys ?s0)[1 := \<lparr>pkey = 1, perm = 0, used = True\<rparr>]\<rparr>"
  have a: "PKUInit 0 4096 ?s0 = (Val 0, ?s1)"
    by (simp add: PKUInit_def DoInit_def initial_flags PAGESIZEPKU_def)
  have k1: "keys ?s0 ! Suc 0 = zero_key"
    by (simp add: initial_keys_other NUM_DOMAINS_def)
  have "PKUCreateDomain (grant 1) 0 ?s1 =
      (Val (uint (1 :: 8 word)),
       ?s1\<lparr>keys := (keys ?s1)[unat (1 :: 8 word) :=
          (keys ?s1 ! unat (1 :: 8 word))\<lparr>pkey := ucast (1 :: 8 word), used := True\<rparr>]\<rparr>)"
    by (rule PKUCreateDomain_grant) simp
  then have b: "PKUCreateDomain (grant 1) 0 ?s1 = (Val 1, ?s2)"
    by (simp add: k1 zero_key_def)
  have ex: "DomainExists 1 ?s2"
    by (simp add: DomainExists_def initial_lengths NUM_DOMAINS_def)
  have free0: "entry (RegisteredPKUCalls ?s2 ! 0) = 0"
    by (simp add: initial_calls NUM_REGISTERED_PKUCALLS_def zero_call_def)
  then have sc: "scan_calls 0 (RegisteredPKUCalls ?s2) = 0"
    by (intro scan_calls_found) (simp_all add: NUM_REGISTERED_PKUCALLS_def)
  have c: "RegisterPKUCall 1 7 ?s2 = (Val 0, gate_state)"
    using ex sc free0
    by (simp add: RegisterPKUCall_def NUM_REGISTERED_PKUCALLS_def PKUCall_overwrite gate_state_def)
  from a b c show ?thesis by (simp add: setup_calls_def)
qed

lemma gate_state_inv: "registry_inv gate_state"
  using run_setup by (rule reachable_inv)

section \<open>The fields of the register value\<close>

text \<open>
  What \<^verbatim>\<open>SetPkey\<close> hands to \<^verbatim>\<open>wrpkru\<close> has the two requested bits in the field of the key
  and the old value's bits in every other field.
\<close>

lemma bit_three: "bit (3 :: 32 word) i \<longleftrightarrow> i < 2"
proof -
  have m: "(mask 2 :: 32 word) = 3" by (simp add: mask_eq_exp_minus_1)
  have "bit (mask 2 :: 32 word) i \<longleftrightarrow> i < 2" by (auto simp: bit_mask_iff)
  then show ?thesis unfolding m .
qed

lemma bit_three_int: "bit (3 :: int) i \<longleftrightarrow> i < 2"
proof -
  have m: "(mask 2 :: int) = 3" by (simp add: mask_eq_exp_minus_1)
  have "bit (mask 2 :: int) i \<longleftrightarrow> i < 2" by (auto simp: bit_mask_iff)
  then show ?thesis unfolding m .
qed

lemma field_of_set:
  assumes "2 * k + 1 < 32" and "b AND 3 = (b :: 32 word)"
  shows "drop_bit (2 * k) ((v AND NOT (push_bit (2 * k) 3)) OR push_bit (2 * k) b) AND 3 = b"
proof (rule bit_word_eqI)
  fix i
  assume "i < LENGTH(32)"
  have b2: "bit b i \<longleftrightarrow> bit b i \<and> i < 2"
    using assms(2) by (metis bit_and_iff bit_three)
  show "bit (drop_bit (2 * k) ((v AND NOT (push_bit (2 * k) 3)) OR push_bit (2 * k) b) AND 3) i
      \<longleftrightarrow> bit b i"
    using assms(1) b2
    by (auto simp: bit_and_iff bit_or_iff bit_not_iff bit_drop_bit_eq bit_push_bit_iff bit_three bit_three_int
        dest: bit_imp_le_length)
qed

lemma field_other:
  assumes "j \<noteq> k" and "b AND 3 = (b :: 32 word)"
  shows "drop_bit (2 * j) ((v AND NOT (push_bit (2 * k) 3)) OR push_bit (2 * k) b) AND 3 =
         drop_bit (2 * j) v AND 3"
proof (rule bit_word_eqI)
  fix i
  assume "i < LENGTH(32)"
  have b2: "\<And>n. bit b n \<Longrightarrow> n < 2"
    using assms(2) by (metis bit_and_iff bit_three)
  have out: "i < 2 \<Longrightarrow> 2 * k \<le> 2 * j + i \<Longrightarrow> \<not> 2 * j + i - 2 * k < 2"
    using assms(1) by presburger
  show "bit (drop_bit (2 * j) ((v AND NOT (push_bit (2 * k) 3)) OR push_bit (2 * k) b) AND 3) i
      \<longleftrightarrow> bit (drop_bit (2 * j) v AND 3) i"
    using b2 out
    by (auto simp: bit_and_iff bit_or_iff bit_not_iff bit_drop_bit_eq bit_push_bit_iff bit_three
        bit_three_int dest: bit_imp_le_length)
qed

lemma new_pkru_bits_and: "new_pkru_bits p AND 3 = new_pkru_bits p"
  by (simp add: new_pkru_bits_def PKEY_DISABLE_ACCESS_def PKEY_DISABLE_WRITE_def)

lemma new_pkru_bits_eq: "new_pkru_bits p = p AND 3"
proof (rule bit_word_eqI)
  fix i
  assume "i < LENGTH(32)"
  have one: "p AND 1 \<noteq> 0 \<longleftrightarrow> bit p 0"
    by (simp add: and_one_eq mod_2_eq_odd bit_0)
  have two: "p AND 2 \<noteq> 0 \<longleftrightarrow> bit p 1"
  proof -
    have "p AND 2 = push_bit 1 (of_bool (bit p 1))"
      by (rule bit_word_eqI) (auto simp: bit_simps bit_and_iff dest: bit_imp_le_length)
    then show ?thesis by (cases "bit p 1") simp_all
  qed
  have c: "i < 2 \<longleftrightarrow> i = 0 \<or> i = 1" by auto
  show "bit (new_pkru_bits p) i \<longleftrightarrow> bit (p AND 3) i"
    unfolding new_pkru_bits_def PKEY_DISABLE_ACCESS_def PKEY_DISABLE_WRITE_def one two
    by (auto simp: bit_and_iff bit_or_iff bit_three bit_three_int c bit_0 bit_simps)
qed

lemma pkru_field_set_pkey_value:
  "unat k < 16 \<Longrightarrow> pkru_field (set_pkey_value r k p) (unat k) = p AND 3"
  unfolding pkru_field_def set_pkey_value_def PKEY_DISABLE_ACCESS_def PKEY_DISABLE_WRITE_def
  using field_of_set [of "unat k" "new_pkru_bits p" "old_pkru r"]
  by (simp add: new_pkru_bits_and new_pkru_bits_eq)

lemma pkru_field_other:
  "j \<noteq> unat k \<Longrightarrow> pkru_field (set_pkey_value r k p) j = pkru_field (old_pkru r) j"
  unfolding pkru_field_def set_pkey_value_def PKEY_DISABLE_ACCESS_def PKEY_DISABLE_WRITE_def
  using field_other [of j "unat k" "new_pkru_bits p" "old_pkru r"]
  by (simp add: new_pkru_bits_and)

section \<open>The fallback register value\<close>

lemma SetPkey_Inr:
  "2 * unat k < 32 \<Longrightarrow> SetPkey k prot s = Inr (s\<lparr>pkru := set_pkey_value 0 k prot\<rparr>)"
  by (simp add: SetPkey_def wrpkru_def rdpkru_def)

lemma old_pkru_fields:
  "k \<in> {1..15} \<Longrightarrow> pkru_field 0x55555554 k = 1"
proof -
  assume "k \<in> {1..15}"
  then have "k = 1 \<or> k = 2 \<or> k = 3 \<or> k = 4 \<or> k = 5 \<or> k = 6 \<or> k = 7 \<or> k = 8 \<or> k = 9 \<or>
      k = 10 \<or> k = 11 \<or> k = 12 \<or> k = 13 \<or> k = 14 \<or> k = 15"
    by (simp only: atLeastAtMost_iff) arith
  then show ?thesis
    by (elim disjE) (simp_all add: pkru_field_def)
qed

text \<open>
  C7, as amended. \<^verbatim>\<open>rdpkru\<close> yields 0, and \<^verbatim>\<open>SetPkey\<close> then takes \<^verbatim>\<open>0x55555554\<close> as the
  old register value, in every call. In that value the field of key 0 is 0, and the field
  of each key 1..15 is \<^verbatim>\<open>PKEY_DISABLE_ACCESS\<close> alone: the disable-access bit is set and
  the disable-write bit is clear.
\<close>

theorem pkru_fallback:
  "rdpkru = 0 \<and>
   old_pkru 0 = 0x55555554 \<and>
   pkru_field (old_pkru 0) 0 = 0 \<and>
   (\<forall>k \<in> {1..15}. pkru_field (old_pkru 0) k = PKEY_DISABLE_ACCESS) \<and>
   (\<forall>k prot s. 2 * unat k < 32 \<longrightarrow>
      SetPkey k prot s =
        Inr (s\<lparr>pkru :=
               (0x55555554 AND
                  NOT (push_bit (2 * unat k) (PKEY_DISABLE_ACCESS OR PKEY_DISABLE_WRITE)))
               OR push_bit (2 * unat k) (new_pkru_bits prot)\<rparr>))"
proof -
  have a: "old_pkru 0 = 0x55555554" by (simp add: old_pkru_def)
  have b: "pkru_field (old_pkru 0) 0 = 0" by (simp add: old_pkru_def pkru_field_def)
  have c: "\<forall>k \<in> {1..15}. pkru_field (old_pkru 0) k = PKEY_DISABLE_ACCESS"
    unfolding a by (simp add: old_pkru_fields PKEY_DISABLE_ACCESS_def)
  have d: "\<forall>k prot s. 2 * unat k < 32 \<longrightarrow>
      SetPkey k prot s =
        Inr (s\<lparr>pkru :=
               (0x55555554 AND
                  NOT (push_bit (2 * unat k) (PKEY_DISABLE_ACCESS OR PKEY_DISABLE_WRITE)))
               OR push_bit (2 * unat k) (new_pkru_bits prot)\<rparr>)"
    by (simp add: SetPkey_Inr set_pkey_value_def old_pkru_def)
  from a b c d show ?thesis by (simp add: rdpkru_def)
qed

theorem pkru_fallback_witness:
  "pkru_field (old_pkru 0) 1 = PKEY_DISABLE_ACCESS \<and>
   pkru_field (old_pkru 0) 15 = PKEY_DISABLE_ACCESS \<and>
   SetPkey 1 PKEY_DISABLE_WRITE (initial_state 0) = Inr ((initial_state 0)\<lparr>pkru := 0x55555558\<rparr>)"
proof -
  note t = pkru_fallback
  from t have f: "\<forall>k \<in> {1..15}. pkru_field (old_pkru 0) k = PKEY_DISABLE_ACCESS" by blast
  have f1: "pkru_field (old_pkru 0) 1 = PKEY_DISABLE_ACCESS" using f by simp
  have f15: "pkru_field (old_pkru 0) 15 = PKEY_DISABLE_ACCESS" using f by simp
  from t have "2 * unat (1 :: 16 word) < 32 \<longrightarrow>
      SetPkey 1 PKEY_DISABLE_WRITE (initial_state 0) =
        Inr ((initial_state 0)\<lparr>pkru :=
               (0x55555554 AND
                  NOT (push_bit (2 * unat (1 :: 16 word)) (PKEY_DISABLE_ACCESS OR PKEY_DISABLE_WRITE)))
               OR push_bit (2 * unat (1 :: 16 word)) (new_pkru_bits PKEY_DISABLE_WRITE)\<rparr>)"
    by blast
  then have "SetPkey 1 PKEY_DISABLE_WRITE (initial_state 0) =
      Inr ((initial_state 0)\<lparr>pkru := 0x55555558\<rparr>)"
    by (simp add: new_pkru_bits_def PKEY_DISABLE_ACCESS_def PKEY_DISABLE_WRITE_def)
  with f1 f15 show ?thesis by simp
qed

text \<open>
  The claim as stated has both disable bits set for the keys 1..15. For key 1 the
  fallback has the disable-write bit clear.
\<close>

theorem pkru_fallback_counterexample:
  "pkru_field (old_pkru rdpkru) 1 = PKEY_DISABLE_ACCESS \<and>
   pkru_field (old_pkru rdpkru) 1 AND PKEY_DISABLE_WRITE = 0 \<and>
   pkru_field (old_pkru rdpkru) 1 \<noteq> (PKEY_DISABLE_ACCESS OR PKEY_DISABLE_WRITE)"
  by (simp add: rdpkru_def old_pkru_def pkru_field_def PKEY_DISABLE_ACCESS_def
      PKEY_DISABLE_WRITE_def)

section \<open>Initialisation\<close>

text \<open>
  C8, as amended. \<^verbatim>\<open>PKUInit\<close> on a system that \<^verbatim>\<open>PKUInit\<close> has initialised returns 0 and
  changes nothing, whatever the page size. On a system not yet initialised it sets both
  flags and returns 0 when the page size is 4096, and returns -1 with \<^verbatim>\<open>EACCES\<close> when the
  page size differs or \<^verbatim>\<open>g_data.initialized\<close> is already set. \<^verbatim>\<open>DoInit\<close> itself fails on
  an initialised registry and on a page size other than 4096.
\<close>

theorem PKUInit_spec:
  "(g_initialized s \<noteq> 0 \<longrightarrow> PKUInit flags pagesize s = (Val 0, s)) \<and>
   (g_initialized s = 0 \<and> initialized (g_data s) = 0 \<and> pagesize = PAGESIZEPKU \<longrightarrow>
      PKUInit flags pagesize s =
        (Val 0, s\<lparr>g_data := (g_data s)\<lparr>initialized := 1\<rparr>, g_initialized := 1\<rparr>)) \<and>
   (g_initialized s = 0 \<and> (initialized (g_data s) \<noteq> 0 \<or> pagesize \<noteq> PAGESIZEPKU) \<longrightarrow>
      PKUInit flags pagesize s = (Val (- 1), s\<lparr>errno := Some EACCES\<rparr>)) \<and>
   (initialized (g_data s) \<noteq> 0 \<or> pagesize \<noteq> PAGESIZEPKU \<longrightarrow>
      DoInit flags pagesize s = (Val (- 1), s\<lparr>errno := Some EACCES\<rparr>))"
proof (intro conjI impI)
  assume "g_initialized s \<noteq> 0"
  then show "PKUInit flags pagesize s = (Val 0, s)" by (simp add: PKUInit_def)
next
  assume "g_initialized s = 0 \<and> initialized (g_data s) = 0 \<and> pagesize = PAGESIZEPKU"
  then show "PKUInit flags pagesize s =
      (Val 0, s\<lparr>g_data := (g_data s)\<lparr>initialized := 1\<rparr>, g_initialized := 1\<rparr>)"
    by (simp add: PKUInit_def DoInit_def PAGESIZEPKU_def)
next
  assume "g_initialized s = 0 \<and> (initialized (g_data s) \<noteq> 0 \<or> pagesize \<noteq> PAGESIZEPKU)"
  then show "PKUInit flags pagesize s = (Val (- 1), s\<lparr>errno := Some EACCES\<rparr>)"
    by (auto simp: PKUInit_def DoInit_def)
next
  assume "initialized (g_data s) \<noteq> 0 \<or> pagesize \<noteq> PAGESIZEPKU"
  then show "DoInit flags pagesize s = (Val (- 1), s\<lparr>errno := Some EACCES\<rparr>)"
    by (auto simp: DoInit_def)
qed

theorem PKUInit_spec_witness:
  "PKUInit 0 4096 (initial_state 0) =
     (Val 0, (initial_state 0)\<lparr>g_data := (g_data (initial_state 0))\<lparr>initialized := 1\<rparr>,
               g_initialized := 1\<rparr>) \<and>
   PKUInit 0 8192 (initial_state 0) = (Val (- 1), (initial_state 0)\<lparr>errno := Some EACCES\<rparr>) \<and>
   PKUInit 0 8192 gate_state = (Val 0, gate_state) \<and>
   DoInit 0 4096 gate_state = (Val (- 1), gate_state\<lparr>errno := Some EACCES\<rparr>)"
proof -
  note a = PKUInit_spec [of "initial_state 0" 0 4096]
  note b = PKUInit_spec [of "initial_state 0" 0 8192]
  note c = PKUInit_spec [of gate_state 0 8192]
  note d = PKUInit_spec [of gate_state 0 4096]
  have a': "PKUInit 0 4096 (initial_state 0) =
     (Val 0, (initial_state 0)\<lparr>g_data := (g_data (initial_state 0))\<lparr>initialized := 1\<rparr>,
               g_initialized := 1\<rparr>)"
    using a by (simp add: initial_flags PAGESIZEPKU_def)
  have b': "PKUInit 0 8192 (initial_state 0) = (Val (- 1), (initial_state 0)\<lparr>errno := Some EACCES\<rparr>)"
    using b by (simp add: initial_flags PAGESIZEPKU_def)
  have c': "PKUInit 0 8192 gate_state = (Val 0, gate_state)"
    using c by (simp add: gate_flags)
  have d': "DoInit 0 4096 gate_state = (Val (- 1), gate_state\<lparr>errno := Some EACCES\<rparr>)"
    using d by (simp add: gate_flags)
  from a' b' c' d' show ?thesis by simp
qed

text \<open>
  The claim as stated has \<^verbatim>\<open>PKUInit\<close> fail when the system is already initialised. After
  the example execution, which starts with a successful \<^verbatim>\<open>PKUInit\<close>, a second call
  returns 0.
\<close>

theorem PKUInit_counterexample:
  "run setup_calls (initial_state 0) = Inr gate_state \<and>
   g_initialized gate_state = 1 \<and> initialized (g_data gate_state) = 1 \<and>
   PKUInit 0 4096 gate_state = (Val 0, gate_state)"
  by (simp add: run_setup gate_flags PKUInit_def)

section \<open>The sentinel of domain creation\<close>

lemma PKUCreateDomain_alt_denied:
  "fst (WASICALL h ([0x01, 0x4A] @ replicate 10 0)) = 0 \<Longrightarrow>
   16 \<le> snd (WASICALL h ([0x01, 0x4A] @ replicate 10 0)) ! 2 \<Longrightarrow>
   PKUCreateDomain_alt h flags s = (Val 0, s)"
  by (cases "WASICALL h ([0x01, 0x4A] @ replicate 10 0)") (simp add: PKUCreateDomain_alt_def)

text \<open>
  C10. When the host answers without error and with a key of 16 or more,
  \<^verbatim>\<open>PKUCreateDomain\<close> returns 0 and creates nothing. In every execution domain 0, the
  root, exists, so the returned 0 is also the handle of an existing domain; and 0 is
  also what the call returns when the host grants key 0.
\<close>

theorem PKUCreateDomain_sentinel:
  "run cs (initial_state p0) = Inr s \<Longrightarrow>
   fst (WASICALL h ([0x01, 0x21] @ replicate 10 0)) = 0 \<Longrightarrow>
   16 \<le> snd (WASICALL h ([0x01, 0x21] @ replicate 10 0)) ! 2 \<Longrightarrow>
   PKUCreateDomain h flags s = (Val 0, s) \<and> DomainExists 0 s \<and>
   fst (PKUCreateDomain (grant 0) flags s) = Val 0"
proof -
  assume r: "run cs (initial_state p0) = Inr s"
    and e: "fst (WASICALL h ([0x01, 0x21] @ replicate 10 0)) = 0"
    and k: "16 \<le> snd (WASICALL h ([0x01, 0x21] @ replicate 10 0)) ! 2"
  from r have "registry_inv s" by (rule reachable_inv)
  then have root: "DomainExists 0 s"
    by (simp add: DomainExists_def registry_inv_def NUM_DOMAINS_def)
  from e k have "PKUCreateDomain h flags s = (Val 0, s)"
    by (cases "WASICALL h ([0x01, 0x21] @ replicate 10 0)") (simp add: PKUCreateDomain_def)
  moreover have "fst (PKUCreateDomain (grant 0) flags s) = Val 0"
    by (simp add: PKUCreateDomain_grant)
  ultimately show ?thesis using root by simp
qed

theorem PKUCreateDomain_sentinel_witness:
  "run setup_calls (initial_state 0) = Inr gate_state \<and>
   fst (WASICALL (grant 16) ([0x01, 0x21] @ replicate 10 0)) = 0 \<and>
   snd (WASICALL (grant 16) ([0x01, 0x21] @ replicate 10 0)) ! 2 = 16 \<and>
   PKUCreateDomain (grant 16) 0 gate_state = (Val 0, gate_state) \<and>
   DomainExists 0 gate_state"
proof -
  have w: "fst (WASICALL (grant 16) ([0x01, 0x21] @ replicate 10 0)) = 0"
    "snd (WASICALL (grant 16) ([0x01, 0x21] @ replicate 10 0)) ! 2 = 16"
    by (simp_all add: WASICALL_grant)
  from PKUCreateDomain_sentinel [OF run_setup, of "grant 16" 0] w
  have "PKUCreateDomain (grant 16) 0 gate_state = (Val 0, gate_state) \<and> DomainExists 0 gate_state"
    by simp
  with run_setup w show ?thesis by simp
qed

section \<open>Switch and restore\<close>

lemma inv_call_domain:
  assumes "registry_inv s" and "0 \<le> i" and "i < int NUM_REGISTERED_PKUCALLS"
  shows "0 \<le> did (RegisteredPKUCalls s ! nat i) \<and>
         did (RegisteredPKUCalls s ! nat i) < int NUM_DOMAINS \<and>
         used (keys s ! nat (did (RegisteredPKUCalls s ! nat i)))"
proof -
  from assms have "nat i < length (RegisteredPKUCalls s)"
    by (simp add: registry_inv_def wf_state_def)
  then have "RegisteredPKUCalls s ! nat i \<in> set (RegisteredPKUCalls s)" by simp
  with assms(1) show ?thesis by (simp add: registry_inv_def)
qed

lemma inv_key_shift:
  assumes "registry_inv s" and "0 \<le> d" and "d < int NUM_DOMAINS"
  shows "2 * unat (pkey (keys s ! nat d)) < 32" and "perm (keys s ! nat d) = 0"
proof -
  from assms have "nat d < length (keys s)"
    by (simp add: registry_inv_def wf_state_def)
  then have "keys s ! nat d \<in> set (keys s)" by simp
  with assms(1) have "unat (pkey (keys s ! nat d)) < NUM_DOMAINS \<and> perm (keys s ! nat d) = 0"
    by (simp add: registry_inv_def)
  then show "2 * unat (pkey (keys s ! nat d)) < 32" and "perm (keys s ! nat d) = 0"
    by (simp_all add: NUM_DOMAINS_def)
qed

lemma PKUSwitch_inv_result:
  assumes "registry_inv s" and "0 \<le> i" and "i < int NUM_REGISTERED_PKUCALLS"
  shows "PKUSwitch i s =
     Inr (Val 0,
       s\<lparr>pkru := set_pkey_value 0 (pkey (keys s ! nat (did (RegisteredPKUCalls s ! nat i))))
                   (perm (keys s ! nat (did (RegisteredPKUCalls s ! nat i)))),
         current_did := did (RegisteredPKUCalls s ! nat i)\<rparr>)"
proof -
  let ?d = "did (RegisteredPKUCalls s ! nat i)"
  from inv_call_domain [OF assms] have d: "0 \<le> ?d" "?d < int NUM_DOMAINS" by simp_all
  from inv_key_shift(1) [OF assms(1) d] have "2 * unat (pkey (keys s ! nat ?d)) < 32" .
  then have "SetPkey (pkey (keys s ! nat ?d)) (perm (keys s ! nat ?d)) s =
      Inr (s\<lparr>pkru := set_pkey_value 0 (pkey (keys s ! nat ?d)) (perm (keys s ! nat ?d))\<rparr>)"
    by (rule SetPkey_Inr)
  with assms(2,3) d show ?thesis
    by (simp add: PKUSwitch_def Let_def SetCurrentDid_def)
qed

lemma PKURestore_inv_result:
  assumes "registry_inv s" and "0 \<le> current_did s" and "current_did s < int NUM_DOMAINS"
  shows "PKURestore d s =
     Inr (Val 0,
       s\<lparr>pkru := set_pkey_value 0 (pkey (keys s ! nat (current_did s)))
                   (PKEY_DISABLE_ACCESS OR PKEY_DISABLE_WRITE),
         current_did := d\<rparr>)"
proof -
  from inv_key_shift(1) [OF assms] have "2 * unat (pkey (keys s ! nat (current_did s))) < 32" .
  then have "SetPkey (pkey (keys s ! nat (current_did s))) (PKEY_DISABLE_ACCESS OR PKEY_DISABLE_WRITE) s =
      Inr (s\<lparr>pkru := set_pkey_value 0 (pkey (keys s ! nat (current_did s)))
         (PKEY_DISABLE_ACCESS OR PKEY_DISABLE_WRITE)\<rparr>)"
    by (rule SetPkey_Inr)
  with assms(2,3) show ?thesis
    by (simp add: PKURestore_def Let_def SetCurrentDid_def GetCurrentDid_def)
qed

lemma new_pkru_bits_both: "new_pkru_bits 3 = 3"
  by (simp add: new_pkru_bits_def PKEY_DISABLE_ACCESS_def PKEY_DISABLE_WRITE_def)

lemma mask_or_absorb: "(a AND NOT m) OR m = a OR (m :: 32 word)"
  by (rule bit_word_eqI) (auto simp: bit_simps)

lemma set_pkey_value_both:
  "set_pkey_value 0 k (PKEY_DISABLE_ACCESS OR PKEY_DISABLE_WRITE) =
     0x55555554 OR push_bit (2 * unat k) 3"
proof -
  have "PKEY_DISABLE_ACCESS OR PKEY_DISABLE_WRITE = (3 :: 32 word)"
    by (simp add: PKEY_DISABLE_ACCESS_def PKEY_DISABLE_WRITE_def)
  then show ?thesis
    by (simp add: set_pkey_value_def new_pkru_bits_both old_pkru_def mask_or_absorb)
qed

lemma switch_restore_inv_result:
  assumes "registry_inv s" and "0 \<le> i" and "i < int NUM_REGISTERED_PKUCALLS"
  shows "switch_restore i d s =
     Inr (Val 0,
       s\<lparr>pkru := 0x55555554 OR
                   push_bit (2 * unat (pkey (keys s ! nat (did (RegisteredPKUCalls s ! nat i))))) 3,
         current_did := d\<rparr>)"
proof -
  let ?c = "did (RegisteredPKUCalls s ! nat i)"
  let ?s1 = "s\<lparr>pkru := set_pkey_value 0 (pkey (keys s ! nat ?c)) (perm (keys s ! nat ?c)),
         current_did := ?c\<rparr>"
  have sw: "PKUSwitch i s = Inr (Val 0, ?s1)"
    using assms by (rule PKUSwitch_inv_result)
  from inv_call_domain [OF assms] have c: "0 \<le> ?c" "?c < int NUM_DOMAINS" by simp_all
  from assms(1) have inv1: "registry_inv ?s1" by simp
  have "PKURestore d ?s1 =
     Inr (Val 0,
       ?s1\<lparr>pkru := set_pkey_value 0 (pkey (keys ?s1 ! nat (current_did ?s1)))
                   (PKEY_DISABLE_ACCESS OR PKEY_DISABLE_WRITE),
         current_did := d\<rparr>)"
    using inv1 c by (intro PKURestore_inv_result) simp_all
  with sw show ?thesis
    by (simp add: switch_restore_def set_pkey_value_both)
qed

text \<open>
  The same for pku.c: its switch commits the same value and records no current domain,
  and its restore changes nothing, so after the pair the register holds what the switch
  wrote.
\<close>

lemma PKUSwitch_alt_inv_result:
  assumes "registry_inv s" and "0 \<le> i" and "i < int NUM_REGISTERED_PKUCALLS"
  shows "PKUSwitch_alt i s =
     Inr (Val 0,
       s\<lparr>pkru := set_pkey_value 0 (pkey (keys s ! nat (did (RegisteredPKUCalls s ! nat i))))
                   (perm (keys s ! nat (did (RegisteredPKUCalls s ! nat i))))\<rparr>)"
proof -
  let ?d = "did (RegisteredPKUCalls s ! nat i)"
  from inv_call_domain [OF assms] have d: "0 \<le> ?d" "?d < int NUM_DOMAINS" by simp_all
  from inv_key_shift(1) [OF assms(1) d] have "2 * unat (pkey (keys s ! nat ?d)) < 32" .
  then have "SetPkey (pkey (keys s ! nat ?d)) (perm (keys s ! nat ?d)) s =
      Inr (s\<lparr>pkru := set_pkey_value 0 (pkey (keys s ! nat ?d)) (perm (keys s ! nat ?d))\<rparr>)"
    by (rule SetPkey_Inr)
  with assms(2,3) d show ?thesis
    by (simp add: PKUSwitch_alt_def Let_def)
qed

lemma switch_restore_alt_inv_result:
  assumes "registry_inv s" and "0 \<le> i" and "i < int NUM_REGISTERED_PKUCALLS"
  shows "switch_restore_alt i d s =
     Inr (Val 0,
       s\<lparr>pkru := set_pkey_value 0 (pkey (keys s ! nat (did (RegisteredPKUCalls s ! nat i))))
                   (perm (keys s ! nat (did (RegisteredPKUCalls s ! nat i))))\<rparr>)"
  using PKUSwitch_alt_inv_result [OF assms]
  by (simp add: switch_restore_alt_def PKURestore_alt_def)

lemma run_append:
  "run (as @ bs) s = (case run as s of Inl f \<Rightarrow> Inl f | Inr s' \<Rightarrow> run bs s')"
  by (induction as arbitrary: s) (auto split: sum.splits)

lemma gate_domains: "DomainExists 0 gate_state" "DomainExists 1 gate_state" "\<not> DomainExists 16 gate_state"
  by (simp_all add: DomainExists_def gate_keys NUM_DOMAINS_def)

lemma gate_switch_0:
  "PKUSwitch 0 gate_state = Inr (Val 0, gate_state\<lparr>pkru := 0x55555550, current_did := 1\<rparr>)"
  by (simp add: PKUSwitch_inv_result gate_state_inv NUM_REGISTERED_PKUCALLS_def gate_calls gate_keys
      set_pkey_value_def old_pkru_def new_pkru_bits_def PKEY_DISABLE_ACCESS_def
      PKEY_DISABLE_WRITE_def)

lemma gate_assign:
  "ar AND NOT 3 = 0 \<Longrightarrow>
   PKUDomainAssignPkey 1 k flags ar gate_state = Inr (Val 0, gate_state\<lparr>pkru := 0x55555550\<rparr>)"
  by (simp add: PKUDomainAssignPkey_def GetCurrentDid_def gate_flags gate_domains gate_keys
      SetPkey_Inr set_pkey_value_def old_pkru_def new_pkru_bits_def PKEY_DISABLE_ACCESS_def
      PKEY_DISABLE_WRITE_def)

text \<open>
  C1, as amended. \<^verbatim>\<open>PKUSwitch\<close> checks nothing. A call id outside 0..63 indexes
  \<^verbatim>\<open>RegisteredPKUCalls\<close> out of bounds, which is a fault and not an error return. For
  every call id in 0..63, registered or not, in every execution: \<^verbatim>\<open>PKUSwitch\<close> returns 0,
  leaves the domain, call and range tables as they are, hands \<^verbatim>\<open>wrpkru\<close> the register
  value built from the stored permission of the slot's domain for that domain's key, and
  makes the slot's domain the current one.
\<close>

theorem PKUSwitch_unchecked:
  "run cs (initial_state p0) = Inr s \<Longrightarrow>
   (i < 0 \<or> int NUM_REGISTERED_PKUCALLS \<le> i \<longrightarrow> PKUSwitch i s = Inl OutOfBounds) \<and>
   (0 \<le> i \<and> i < int NUM_REGISTERED_PKUCALLS \<longrightarrow>
      PKUSwitch i s =
        Inr (Val 0,
          s\<lparr>pkru := set_pkey_value rdpkru
                      (pkey (keys s ! nat (did (RegisteredPKUCalls s ! nat i))))
                      (perm (keys s ! nat (did (RegisteredPKUCalls s ! nat i)))),
            current_did := did (RegisteredPKUCalls s ! nat i)\<rparr>))"
proof -
  assume "run cs (initial_state p0) = Inr s"
  then have inv: "registry_inv s" by (rule reachable_inv)
  have a: "i < 0 \<or> int NUM_REGISTERED_PKUCALLS \<le> i \<longrightarrow> PKUSwitch i s = Inl OutOfBounds"
    by (auto simp: PKUSwitch_def)
  from inv show ?thesis
    using a by (simp add: PKUSwitch_inv_result rdpkru_def)
qed

theorem PKUSwitch_unchecked_witness:
  "run setup_calls (initial_state 0) = Inr gate_state \<and>
   PKUSwitch 64 gate_state = Inl OutOfBounds \<and>
   PKUSwitch 0 gate_state = Inr (Val 0, gate_state\<lparr>pkru := 0x55555550, current_did := 1\<rparr>)"
proof -
  from PKUSwitch_unchecked [OF run_setup, of 64]
  have a: "PKUSwitch 64 gate_state = Inl OutOfBounds"
    by (simp add: NUM_REGISTERED_PKUCALLS_def)
  from PKUSwitch_unchecked [OF run_setup, of 0]
  have b: "PKUSwitch 0 gate_state = Inr (Val 0, gate_state\<lparr>pkru := 0x55555550, current_did := 1\<rparr>)"
    by (simp add: NUM_REGISTERED_PKUCALLS_def gate_calls gate_keys rdpkru_def
      set_pkey_value_def old_pkru_def new_pkru_bits_def PKEY_DISABLE_ACCESS_def
      PKEY_DISABLE_WRITE_def)
  from run_setup a b show ?thesis by simp
qed

text \<open>
  The claim as stated has \<^verbatim>\<open>PKUSwitch\<close> report an error and change nothing on a slot
  whose entry is null. After the example execution and a switch into domain 1, slot 1 is
  still empty; \<^verbatim>\<open>PKUSwitch(1)\<close> returns 0, hands \<^verbatim>\<open>wrpkru\<close> a new value and makes domain 0
  current.
\<close>

theorem PKUSwitch_counterexample:
  "run (setup_calls @ [CallPKUSwitch 0]) (initial_state 0) =
     Inr (gate_state\<lparr>pkru := 0x55555550, current_did := 1\<rparr>) \<and>
   entry (RegisteredPKUCalls (gate_state\<lparr>pkru := 0x55555550, current_did := 1\<rparr>) ! 1) = 0 \<and>
   PKUSwitch 1 (gate_state\<lparr>pkru := 0x55555550, current_did := 1\<rparr>) =
     Inr (Val 0, gate_state\<lparr>pkru := 0x55555554, current_did := 0\<rparr>)"
proof -
  let ?a = "gate_state\<lparr>pkru := 0x55555550, current_did := 1\<rparr>"
  have r: "run (setup_calls @ [CallPKUSwitch 0]) (initial_state 0) = Inr ?a"
    by (simp add: run_append run_setup gate_switch_0)
  have c1: "RegisteredPKUCalls ?a ! 1 = zero_call"
    by (simp add: gate_calls NUM_REGISTERED_PKUCALLS_def)
  have inv: "registry_inv ?a" using gate_state_inv by simp
  have "PKUSwitch 1 ?a =
     Inr (Val 0,
       ?a\<lparr>pkru := set_pkey_value 0 (pkey (keys ?a ! nat (did (RegisteredPKUCalls ?a ! nat 1))))
                   (perm (keys ?a ! nat (did (RegisteredPKUCalls ?a ! nat 1)))),
         current_did := did (RegisteredPKUCalls ?a ! nat 1)\<rparr>)"
    using inv by (rule PKUSwitch_inv_result) (simp_all add: NUM_REGISTERED_PKUCALLS_def)
  then have s: "PKUSwitch 1 ?a = Inr (Val 0, gate_state\<lparr>pkru := 0x55555554, current_did := 0\<rparr>)"
    using c1 by (simp add: zero_call_def gate_keys set_pkey_value_def old_pkru_def
        new_pkru_bits_def PKEY_DISABLE_ACCESS_def PKEY_DISABLE_WRITE_def)
  from r c1 s show ?thesis by (simp add: zero_call_def)
qed

lemma ReadPKRU_register:
  "host_pkru s' = host_pkru s \<Longrightarrow> fst (ReadPKRU hr s') = fst (ReadPKRU hr s)"
  by (simp add: ReadPKRU_def split: prod.splits)

lemma initial_state_register: "initial_state p = (initial_state 0)\<lparr>host_pkru := p\<rparr>"
  by (simp add: initial_state_def PKUInitCtor_def zero_state_def)

lemma run_setup_register:
  "run setup_calls (initial_state p) = Inr (gate_state\<lparr>host_pkru := p\<rparr>)"
proof -
  let ?s0 = "initial_state p"
  let ?s1 = "?s0\<lparr>g_data := (g_data ?s0)\<lparr>initialized := 1\<rparr>, g_initialized := 1\<rparr>"
  let ?s2 = "?s1\<lparr>keys := (keys ?s0)[1 := \<lparr>pkey = 1, perm = 0, used = True\<rparr>]\<rparr>"
  have a: "PKUInit 0 4096 ?s0 = (Val 0, ?s1)"
    by (simp add: PKUInit_def DoInit_def initial_flags PAGESIZEPKU_def)
  have k1: "keys ?s0 ! Suc 0 = zero_key"
    by (simp add: initial_keys_other NUM_DOMAINS_def)
  have "PKUCreateDomain (grant 1) 0 ?s1 =
      (Val (uint (1 :: 8 word)),
       ?s1\<lparr>keys := (keys ?s1)[unat (1 :: 8 word) :=
          (keys ?s1 ! unat (1 :: 8 word))\<lparr>pkey := ucast (1 :: 8 word), used := True\<rparr>]\<rparr>)"
    by (rule PKUCreateDomain_grant) simp
  then have b: "PKUCreateDomain (grant 1) 0 ?s1 = (Val 1, ?s2)"
    by (simp add: k1 zero_key_def)
  have ex: "DomainExists 1 ?s2"
    by (simp add: DomainExists_def initial_lengths NUM_DOMAINS_def)
  have free0: "entry (RegisteredPKUCalls ?s2 ! 0) = 0"
    by (simp add: initial_calls NUM_REGISTERED_PKUCALLS_def zero_call_def)
  then have sc: "scan_calls 0 (RegisteredPKUCalls ?s2) = 0"
    by (intro scan_calls_found) (simp_all add: NUM_REGISTERED_PKUCALLS_def)
  have g: "gate_state\<lparr>host_pkru := p\<rparr> =
      ?s2\<lparr>RegisteredPKUCalls := (RegisteredPKUCalls ?s0)[0 := \<lparr>did = 1, entry = 7\<rparr>]\<rparr>"
    by (simp add: gate_state_def initial_state_register [of p])
  have c: "RegisterPKUCall 1 7 ?s2 = (Val 0, gate_state\<lparr>host_pkru := p\<rparr>)"
    using ex sc free0
    by (simp add: RegisterPKUCall_def NUM_REGISTERED_PKUCALLS_def PKUCall_overwrite g)
  from a b c show ?thesis by (simp add: setup_calls_def)
qed

lemma ReadPKRU_read_host:
  "ReadPKRU read_host (gate_state\<lparr>host_pkru := 0x55555554\<rparr>) =
     (Val 0x55555554, gate_state\<lparr>host_pkru := 0x55555554\<rparr>)"
  by (simp add: ReadPKRU_def WASICALL_def read_host_def)

lemma register_state_facts:
  "registry_inv (gate_state\<lparr>host_pkru := p\<rparr>)"
  "keys (gate_state\<lparr>host_pkru := p\<rparr>) = keys gate_state"
  "RegisteredPKUCalls (gate_state\<lparr>host_pkru := p\<rparr>) = RegisteredPKUCalls gate_state"
  using reachable_inv [OF run_setup_register [of p]] by simp_all

text \<open>
  C2. In every execution, for every call id in 0..63 (so for every registered one) and
  every \<open>d\<close>, \<^verbatim>\<open>PKUSwitch(id)\<close> followed by \<^verbatim>\<open>PKURestore(d)\<close> returns 0 and leaves the
  protection-control register as it was before the switch: the register is the host's,
  the two functions make no host call, and the value \<^verbatim>\<open>SetPkey\<close> computes goes to
  \<^verbatim>\<open>wrpkru\<close>, which keeps it in a local variable. What \<^verbatim>\<open>ReadPKRU\<close> returns is therefore
  the same before and after, whatever the host answers from its register. The tables are
  unchanged too, and \<open>d\<close> is the current domain afterwards. The same holds of the pair
  in pku.c, which leaves the current domain alone.
\<close>

theorem switch_restore_register:
  "run cs (initial_state p0) = Inr s \<Longrightarrow> 0 \<le> i \<Longrightarrow> i < int NUM_REGISTERED_PKUCALLS \<Longrightarrow>
   (\<exists>s'. switch_restore i d s = Inr (Val 0, s') \<and>
         host_pkru s' = host_pkru s \<and>
         fst (ReadPKRU hr s') = fst (ReadPKRU hr s) \<and>
         keys s' = keys s \<and> RegisteredPKUCalls s' = RegisteredPKUCalls s \<and>
         g_data s' = g_data s \<and> current_did s' = d) \<and>
   (\<exists>s'. switch_restore_alt i d s = Inr (Val 0, s') \<and>
         host_pkru s' = host_pkru s \<and>
         fst (ReadPKRU hr s') = fst (ReadPKRU hr s) \<and>
         keys s' = keys s \<and> RegisteredPKUCalls s' = RegisteredPKUCalls s \<and>
         g_data s' = g_data s \<and> current_did s' = current_did s)"
proof -
  assume r: "run cs (initial_state p0) = Inr s"
    and i: "0 \<le> i" "i < int NUM_REGISTERED_PKUCALLS"
  from r have inv: "registry_inv s" by (rule reachable_inv)
  let ?k = "pkey (keys s ! nat (did (RegisteredPKUCalls s ! nat i)))"
  let ?a = "s\<lparr>pkru := 0x55555554 OR push_bit (2 * unat ?k) 3, current_did := d\<rparr>"
  let ?b = "s\<lparr>pkru := set_pkey_value 0 ?k
                (perm (keys s ! nat (did (RegisteredPKUCalls s ! nat i))))\<rparr>"
  have a: "switch_restore i d s = Inr (Val 0, ?a)"
    using inv i by (rule switch_restore_inv_result)
  have b: "switch_restore_alt i d s = Inr (Val 0, ?b)"
    using inv i by (rule switch_restore_alt_inv_result)
  have ra: "fst (ReadPKRU hr ?a) = fst (ReadPKRU hr s)"
    by (rule ReadPKRU_register) simp
  have rb: "fst (ReadPKRU hr ?b) = fst (ReadPKRU hr s)"
    by (rule ReadPKRU_register) simp
  from a ra have "\<exists>s'. switch_restore i d s = Inr (Val 0, s') \<and>
         host_pkru s' = host_pkru s \<and>
         fst (ReadPKRU hr s') = fst (ReadPKRU hr s) \<and>
         keys s' = keys s \<and> RegisteredPKUCalls s' = RegisteredPKUCalls s \<and>
         g_data s' = g_data s \<and> current_did s' = d"
    by (intro exI [of _ ?a]) simp
  moreover from b rb have "\<exists>s'. switch_restore_alt i d s = Inr (Val 0, s') \<and>
         host_pkru s' = host_pkru s \<and>
         fst (ReadPKRU hr s') = fst (ReadPKRU hr s) \<and>
         keys s' = keys s \<and> RegisteredPKUCalls s' = RegisteredPKUCalls s \<and>
         g_data s' = g_data s \<and> current_did s' = current_did s"
    by (intro exI [of _ ?b]) simp
  ultimately show ?thesis by simp
qed

theorem switch_restore_register_witness:
  "run setup_calls (initial_state 0x55555554) = Inr (gate_state\<lparr>host_pkru := 0x55555554\<rparr>) \<and>
   entry (RegisteredPKUCalls (gate_state\<lparr>host_pkru := 0x55555554\<rparr>) ! 0) = 7 \<and>
   ReadPKRU read_host (gate_state\<lparr>host_pkru := 0x55555554\<rparr>) =
     (Val 0x55555554, gate_state\<lparr>host_pkru := 0x55555554\<rparr>) \<and>
   switch_restore 0 0 (gate_state\<lparr>host_pkru := 0x55555554\<rparr>) =
     Inr (Val 0, gate_state\<lparr>host_pkru := 0x55555554, pkru := 0x5555555C, current_did := 0\<rparr>) \<and>
   host_pkru (gate_state\<lparr>host_pkru := 0x55555554, pkru := 0x5555555C, current_did := 0\<rparr>) =
     0x55555554 \<and>
   fst (ReadPKRU read_host
          (gate_state\<lparr>host_pkru := 0x55555554, pkru := 0x5555555C, current_did := 0\<rparr>)) =
     Val 0x55555554"
proof -
  let ?g = "gate_state\<lparr>host_pkru := 0x55555554\<rparr>"
  let ?a = "gate_state\<lparr>host_pkru := 0x55555554, pkru := 0x5555555C, current_did := 0\<rparr>"
  have pos: "(0 :: int) < int NUM_REGISTERED_PKUCALLS" by (simp add: NUM_REGISTERED_PKUCALLS_def)
  have sr: "switch_restore 0 0 ?g = Inr (Val 0, ?a)"
    using switch_restore_inv_result
      [OF register_state_facts(1) [of "0x55555554"] order_refl pos, where d = 0]
    by (simp add: register_state_facts gate_calls gate_keys)
  from switch_restore_register
    [OF run_setup_register [of "0x55555554"] order_refl pos, where d = 0 and hr = read_host]
  obtain s' where s: "switch_restore 0 0 ?g = Inr (Val 0, s')"
    and h: "host_pkru s' = host_pkru ?g"
    and rd: "fst (ReadPKRU read_host s') = fst (ReadPKRU read_host ?g)"
    by blast
  from s sr have "s' = ?a" by simp
  with h rd run_setup_register sr show ?thesis
    by (simp add: gate_calls ReadPKRU_read_host)
qed

section \<open>Key assignment\<close>

text \<open>
  What \<^verbatim>\<open>PKUDomainAssignPkey(did, pkey, flags, AccessRights)\<close> does in every execution:
  it returns \<^verbatim>\<open>-EINVAL\<close> and changes nothing when the current domain or \<open>did\<close> does not
  exist, or when \<open>AccessRights\<close> has a bit other than the two disable flags. Otherwise it
  returns 0, leaves the tables as they are, and hands \<^verbatim>\<open>wrpkru\<close> the value built from the
  permission bits already stored for \<open>did\<close>.
\<close>

theorem PKUDomainAssignPkey_spec:
  "run cs (initial_state p0) = Inr s \<Longrightarrow>
   (\<not> DomainExists (GetCurrentDid s) s \<or> \<not> DomainExists d s \<or>
    ar AND NOT (PKEY_DISABLE_ACCESS OR PKEY_DISABLE_WRITE) \<noteq> 0 \<longrightarrow>
      PKUDomainAssignPkey d k flags ar s = Inr (Neg EINVAL, s)) \<and>
   (DomainExists (GetCurrentDid s) s \<and> DomainExists d s \<and>
    ar AND NOT (PKEY_DISABLE_ACCESS OR PKEY_DISABLE_WRITE) = 0 \<longrightarrow>
      PKUDomainAssignPkey d k flags ar s =
        Inr (Val 0,
          s\<lparr>pkru := set_pkey_value rdpkru (pkey (keys s ! nat d)) (perm (keys s ! nat d))\<rparr>))"
proof -
  assume "run cs (initial_state p0) = Inr s"
  then have inv: "registry_inv s" by (rule reachable_inv)
  have a: "\<not> DomainExists (GetCurrentDid s) s \<or> \<not> DomainExists d s \<or>
    ar AND NOT (PKEY_DISABLE_ACCESS OR PKEY_DISABLE_WRITE) \<noteq> 0 \<longrightarrow>
      PKUDomainAssignPkey d k flags ar s = Inr (Neg EINVAL, s)"
    by (auto simp: PKUDomainAssignPkey_def)
  have b: "PKUDomainAssignPkey d k flags ar s =
        Inr (Val 0,
          s\<lparr>pkru := set_pkey_value rdpkru (pkey (keys s ! nat d)) (perm (keys s ! nat d))\<rparr>)"
    if h: "DomainExists (GetCurrentDid s) s" "DomainExists d s"
      "ar AND NOT (PKEY_DISABLE_ACCESS OR PKEY_DISABLE_WRITE) = 0"
  proof -
    from h(2) have d: "0 \<le> d" "d < int NUM_DOMAINS" by (simp_all add: DomainExists_def)
    from inv_key_shift(1) [OF inv d] have "2 * unat (pkey (keys s ! nat d)) < 32" .
    then have "SetPkey (pkey (keys s ! nat d)) (perm (keys s ! nat d)) s =
        Inr (s\<lparr>pkru := set_pkey_value 0 (pkey (keys s ! nat d)) (perm (keys s ! nat d))\<rparr>)"
      by (rule SetPkey_Inr)
    with h show ?thesis by (simp add: PKUDomainAssignPkey_def rdpkru_def)
  qed
  from a b show ?thesis by blast
qed

theorem PKUDomainAssignPkey_spec_witness:
  "run setup_calls (initial_state 0) = Inr gate_state \<and>
   PKUDomainAssignPkey 16 1 0 0 gate_state = Inr (Neg EINVAL, gate_state) \<and>
   PKUDomainAssignPkey 1 1 0 4 gate_state = Inr (Neg EINVAL, gate_state) \<and>
   PKUDomainAssignPkey 1 1 0 0 gate_state = Inr (Val 0, gate_state\<lparr>pkru := 0x55555550\<rparr>)"
proof -
  have cur: "DomainExists (GetCurrentDid gate_state) gate_state"
    by (simp add: GetCurrentDid_def gate_flags gate_domains)
  from PKUDomainAssignPkey_spec [OF run_setup, where d = 16 and ar = 0 and k = 1 and flags = 0]
  have a: "PKUDomainAssignPkey 16 1 0 0 gate_state = Inr (Neg EINVAL, gate_state)"
    by (simp add: gate_domains)
  from PKUDomainAssignPkey_spec [OF run_setup, where d = 1 and ar = 4 and k = 1 and flags = 0]
  have b: "PKUDomainAssignPkey 1 1 0 4 gate_state = Inr (Neg EINVAL, gate_state)"
    by (simp add: PKEY_DISABLE_ACCESS_def PKEY_DISABLE_WRITE_def)
  from PKUDomainAssignPkey_spec [OF run_setup, where d = 1 and ar = 0 and k = 1 and flags = 0] cur
  have c: "PKUDomainAssignPkey 1 1 0 0 gate_state = Inr (Val 0, gate_state\<lparr>pkru := 0x55555550\<rparr>)"
    by (simp add: gate_domains gate_keys rdpkru_def set_pkey_value_def old_pkru_def
        new_pkru_bits_def PKEY_DISABLE_ACCESS_def PKEY_DISABLE_WRITE_def)
  from run_setup a b c show ?thesis by simp
qed

text \<open>
  C3. The claim has \<open>AccessRights\<close> stored as the permission bits of the domain and
  those bits committed for its key, as the header describes the parameter. The code
  checks \<open>AccessRights\<close> and then drops it: on the example state, assigning
  \<^verbatim>\<open>PKEY_DISABLE_WRITE\<close> to domain 1 returns 0, the stored permission of domain 1 is
  still 0, and the field of key 1 in the value handed to \<^verbatim>\<open>wrpkru\<close> is 0.
\<close>

theorem PKUDomainAssignPkey_drops_rights:
  "run setup_calls (initial_state 0) = Inr gate_state \<and>
   DomainExists 1 gate_state \<and>
   PKUDomainAssignPkey 1 1 0 PKEY_DISABLE_WRITE gate_state =
     Inr (Val 0, gate_state\<lparr>pkru := 0x55555550\<rparr>) \<and>
   perm (keys (gate_state\<lparr>pkru := 0x55555550\<rparr>) ! 1) = 0 \<and>
   pkey (keys (gate_state\<lparr>pkru := 0x55555550\<rparr>) ! 1) = 1 \<and>
   pkru_field (pkru (gate_state\<lparr>pkru := 0x55555550\<rparr>)) 1 = 0"
proof -
  have "PKEY_DISABLE_WRITE AND NOT 3 = 0" by (simp add: PKEY_DISABLE_WRITE_def)
  then have "PKUDomainAssignPkey 1 1 0 PKEY_DISABLE_WRITE gate_state =
     Inr (Val 0, gate_state\<lparr>pkru := 0x55555550\<rparr>)"
    by (rule gate_assign)
  then show ?thesis
    by (simp add: run_setup gate_domains gate_keys pkru_field_def)
qed

section \<open>Freeing a domain\<close>

lemma filter_replicate_none: "\<not> P z \<Longrightarrow> filter P (replicate n z) = []"
  by (induction n) simp_all

lemma filter_update_one:
  "i < n \<Longrightarrow> \<not> P z \<Longrightarrow> P a \<Longrightarrow> filter P ((replicate n z)[i := a]) = [a]"
  by (simp add: upd_conv_take_nth_drop filter_replicate_none)

lemma filter_update_two:
  "i < j \<Longrightarrow> j < n \<Longrightarrow> \<not> P z \<Longrightarrow> P a \<Longrightarrow> P b \<Longrightarrow>
   filter P ((replicate n z)[i := a, j := b]) = [a, b]"
proof -
  assume h: "i < j" "j < n" "\<not> P z" "P a" "P b"
  let ?xs = "(replicate n z)[i := a]"
  have len: "length ?xs = n" by simp
  have t: "take j ?xs = (replicate j z)[i := a]"
    using h by (simp add: take_update_swap min_def)
  have d: "drop (Suc j) ?xs = replicate (n - Suc j) z"
    using h by simp
  have "?xs[j := b] = take j ?xs @ b # drop (Suc j) ?xs"
    using h len by (simp add: upd_conv_take_nth_drop)
  then show ?thesis
    using h by (simp add: t d filter_update_one filter_replicate_none)
qed

lemma replicate_update_same: "(replicate n z)[i := z] = replicate n z"
  by (induction n arbitrary: i) (auto split: nat.splits)

lemma any_domain_used_0:
  "any_domain_used 0 s \<longleftrightarrow> (\<exists>i<NUM_DOMAINS. used (domains (g_data s) ! i))"
  by (simp add: any_domain_used_iff)

lemma any_range_used_0:
  "any_range_used 0 s \<longleftrightarrow> (\<exists>i<NUM_DOMAINS. r_used (ranges (g_data s) ! i))"
  by (simp add: any_range_used_iff)

lemma sweep_ranges_0:
  "UserHandler (g_data s) \<noteq> 0 \<Longrightarrow> wf_state s \<Longrightarrow>
   sweep_ranges 0 s =
     Inr (s\<lparr>handler_calls := handler_calls s @ map r_addr (filter r_used (ranges (g_data s)))\<rparr>)"
  using sweep_ranges_log [of s 0] by (simp add: wf_state_def)

lemma revoke_domains_0:
  "wf_state s \<Longrightarrow>
   revoke_domains 0 s =
     s\<lparr>g_data := (g_data s)\<lparr>domains := map (\<lambda>d. d\<lparr>used := False\<rparr>) (domains (g_data s))\<rparr>\<rparr>"
  using revoke_domains_eq [of s 0] by (simp add: wf_state_def)

lemma zero_slot: "(k :: PKUKey)\<lparr>pkey := 0, perm := 0, used := False\<rparr> = \<lparr>pkey = 0, perm = 0, used = False\<rparr>"
  by (cases k) simp

lemma DomainExists_keys: "keys s' = keys s \<Longrightarrow> DomainExists d s' = DomainExists d s"
  by (simp add: DomainExists_def)

lemma gate_wf: "wf_state gate_state"
  using gate_state_inv by (simp add: registry_inv_def)

lemma gate_tables:
  "domains (g_data gate_state) = replicate NUM_DOMAINS zero_key"
  "ranges (g_data gate_state) = replicate NUM_MPROTECT_RANGES zero_range"
  by (simp_all add: gate_state_def initial_state_def PKUInitCtor_def zero_state_def)

lemma gate_no_range: "r \<in> set (ranges (g_data gate_state)) \<Longrightarrow> \<not> r_used r"
  using gate_state_inv by (simp add: registry_inv_def)

lemma sweep_state_facts:
  "wf_state sweep_state"
  "initialized (g_data sweep_state) = 1"
  "UserHandler (g_data sweep_state) = 9"
  "keys sweep_state = keys gate_state"
  "domains (g_data sweep_state) = replicate NUM_DOMAINS zero_key"
  "handler_calls sweep_state = []"
  using gate_wf
  by (simp_all add: sweep_state_def wf_state_def gate_flags gate_tables gate_state_def
      initial_state_def PKUInitCtor_def zero_state_def)

lemma sweep_state_used:
  "map r_addr (filter r_used (ranges (g_data sweep_state))) = [4096, 8192]"
proof -
  have "filter r_used ((replicate NUM_MPROTECT_RANGES zero_range)
          [3 := zero_range\<lparr>r_addr := 4096, r_used := True\<rparr>,
           5 := zero_range\<lparr>r_addr := 8192, r_used := True\<rparr>]) =
        [zero_range\<lparr>r_addr := 4096, r_used := True\<rparr>, zero_range\<lparr>r_addr := 8192, r_used := True\<rparr>]"
    by (rule filter_update_two) (simp_all add: NUM_MPROTECT_RANGES_def zero_range_def)
  then show ?thesis by (simp add: sweep_state_def gate_tables)
qed

lemma sweep_state_low: "\<exists>i<NUM_DOMAINS. r_used (ranges (g_data sweep_state) ! i)"
  by (rule exI [of _ 3])
    (simp add: sweep_state_def gate_tables NUM_DOMAINS_def NUM_MPROTECT_RANGES_def)

lemma high_range_facts:
  "wf_state high_range_state"
  "initialized (g_data high_range_state) = 1"
  "UserHandler (g_data high_range_state) = 9"
  "keys high_range_state = keys gate_state"
  "domains (g_data high_range_state) = replicate NUM_DOMAINS zero_key"
  "handler_calls high_range_state = []"
  "g_LazyFree high_range_state = False"
  using gate_wf
  by (simp_all add: high_range_state_def wf_state_def gate_flags gate_tables gate_state_def
      initial_state_def PKUInitCtor_def zero_state_def)

lemma high_range_used:
  "r_used (ranges (g_data high_range_state) ! 16)"
  "map r_addr (filter r_used (ranges (g_data high_range_state))) = [65536]"
proof -
  show "r_used (ranges (g_data high_range_state) ! 16)"
    by (simp add: high_range_state_def gate_tables NUM_MPROTECT_RANGES_def)
  have "filter r_used ((replicate NUM_MPROTECT_RANGES zero_range)
          [16 := zero_range\<lparr>r_addr := 65536, r_used := True\<rparr>]) =
        [zero_range\<lparr>r_addr := 65536, r_used := True\<rparr>]"
    by (rule filter_update_one) (simp_all add: NUM_MPROTECT_RANGES_def zero_range_def)
  then show "map r_addr (filter r_used (ranges (g_data high_range_state))) = [65536]"
    by (simp add: high_range_state_def gate_tables)
qed

lemma inv_PKUDomainFree:
  assumes "registry_inv s" and "initialized (g_data s) \<noteq> 0" and "DomainExists d s"
  shows "PKUDomainFree d s = Inr (Val 0, s)"
proof -
  from assms(1) have nu: "\<not> any_domain_used 0 s"
    by (simp add: any_domain_used_0 inv_no_domain_used)
  from assms(3) have d: "nat d < NUM_DOMAINS" by (auto simp: DomainExists_def)
  with assms(1) have "domains (g_data s) ! nat d \<in> set (domains (g_data s))"
    by (simp add: registry_inv_def wf_state_def)
  with assms(1) have "pkey (domains (g_data s) ! nat d) = 0 \<and> perm (domains (g_data s) ! nat d) = 0 \<and>
      \<not> used (domains (g_data s) ! nat d)"
    by (simp add: registry_inv_def)
  then have "(domains (g_data s) ! nat d)\<lparr>pkey := 0, perm := 0, used := False\<rparr> =
      domains (g_data s) ! nat d"
    by (cases "domains (g_data s) ! nat d") simp
  with assms nu show ?thesis
    by (simp add: PKUDomainFree_def inv_sweep)
qed

lemma inv_PKUPkeyFree:
  assumes "registry_inv s" and "\<not> g_LazyFree s"
  shows "PKUPkeyFree k s = PKUDomainFree k s"
proof -
  have "NUM_DOMAINS \<le> NUM_MPROTECT_RANGES"
    by (simp add: NUM_DOMAINS_def NUM_MPROTECT_RANGES_def)
  with assms(1) have "\<not> any_range_used 0 s"
    by (auto simp: any_range_used_0 inv_no_range_used)
  with assms show ?thesis
    by (simp add: PKUPkeyFree_def inv_revoke)
qed

lemma sweep_ranges_all:
  assumes "wf_state s"
    and "UserHandler (g_data s) \<noteq> 0 \<or> (\<forall>r \<in> set (ranges (g_data s)). \<not> r_used r)"
  shows "sweep_ranges 0 s =
     Inr (s\<lparr>handler_calls := handler_calls s @ map r_addr (filter r_used (ranges (g_data s)))\<rparr>)"
proof (cases "UserHandler (g_data s) \<noteq> 0")
  case True
  then show ?thesis using assms(1) by (rule sweep_ranges_0)
next
  case False
  with assms(2) have none: "\<forall>r \<in> set (ranges (g_data s)). \<not> r_used r" by simp
  then have f: "filter r_used (ranges (g_data s)) = []" by (simp add: filter_empty_conv)
  from assms(1) have "length (ranges (g_data s)) = NUM_MPROTECT_RANGES" by (simp add: wf_state_def)
  with none have "sweep_ranges 0 s = Inr s"
    by (intro sweep_ranges_none) simp
  then show ?thesis by (simp add: f)
qed

text \<open>
  All cases of \<^verbatim>\<open>PKUDomainFree(did)\<close>. It returns -1 and changes nothing when the registry
  is not initialised; it returns -1 with \<^verbatim>\<open>EINVAL\<close> when \<open>did\<close> does not exist, and also when
  any slot of \<^verbatim>\<open>g_data.domains\<close> is marked used. Otherwise it calls the callback once on
  the address of every range marked used, over the whole table and in table order, then
  clears slot \<open>did\<close> of \<^verbatim>\<open>g_data.domains\<close> and returns 0; with no callback configured
  that needs every range unused, and a range marked used is then a call through a null
  pointer.
\<close>

lemma PKUDomainFree_cases:
  "wf_state s \<Longrightarrow>
   (initialized (g_data s) = 0 \<longrightarrow> PKUDomainFree d s = Inr (Val (- 1), s)) \<and>
   (initialized (g_data s) \<noteq> 0 \<and> \<not> DomainExists d s \<longrightarrow>
      PKUDomainFree d s = Inr (Val (- 1), s\<lparr>errno := Some EINVAL\<rparr>)) \<and>
   (initialized (g_data s) \<noteq> 0 \<and> DomainExists d s \<and>
    (\<exists>i<NUM_DOMAINS. used (domains (g_data s) ! i)) \<longrightarrow>
      PKUDomainFree d s = Inr (Val (- 1), s\<lparr>errno := Some EINVAL\<rparr>)) \<and>
   (initialized (g_data s) \<noteq> 0 \<and> DomainExists d s \<and>
    (\<forall>i<NUM_DOMAINS. \<not> used (domains (g_data s) ! i)) \<and>
    (UserHandler (g_data s) \<noteq> 0 \<or> (\<forall>r \<in> set (ranges (g_data s)). \<not> r_used r)) \<longrightarrow>
      PKUDomainFree d s =
        Inr (Val 0,
          s\<lparr>handler_calls := handler_calls s @ map r_addr (filter r_used (ranges (g_data s))),
            g_data := (g_data s)\<lparr>domains :=
              (domains (g_data s))[nat d := \<lparr>pkey = 0, perm = 0, used = False\<rparr>]\<rparr>\<rparr>)) \<and>
   (initialized (g_data s) \<noteq> 0 \<and> DomainExists d s \<and>
    (\<forall>i<NUM_DOMAINS. \<not> used (domains (g_data s) ! i)) \<and>
    UserHandler (g_data s) = 0 \<and> (\<exists>j<NUM_MPROTECT_RANGES. r_used (ranges (g_data s) ! j)) \<longrightarrow>
      PKUDomainFree d s = Inl NullCall)"
proof -
  assume wf: "wf_state s"
  have a: "initialized (g_data s) = 0 \<longrightarrow> PKUDomainFree d s = Inr (Val (- 1), s)"
    by (simp add: PKUDomainFree_def)
  have b: "initialized (g_data s) \<noteq> 0 \<and> \<not> DomainExists d s \<longrightarrow>
      PKUDomainFree d s = Inr (Val (- 1), s\<lparr>errno := Some EINVAL\<rparr>)"
    by (simp add: PKUDomainFree_def)
  have c: "initialized (g_data s) \<noteq> 0 \<and> DomainExists d s \<and>
    (\<exists>i<NUM_DOMAINS. used (domains (g_data s) ! i)) \<longrightarrow>
      PKUDomainFree d s = Inr (Val (- 1), s\<lparr>errno := Some EINVAL\<rparr>)"
    by (simp add: PKUDomainFree_def any_domain_used_0)
  have e: "PKUDomainFree d s =
        Inr (Val 0,
          s\<lparr>handler_calls := handler_calls s @ map r_addr (filter r_used (ranges (g_data s))),
            g_data := (g_data s)\<lparr>domains :=
              (domains (g_data s))[nat d := \<lparr>pkey = 0, perm = 0, used = False\<rparr>]\<rparr>\<rparr>)"
    if h: "initialized (g_data s) \<noteq> 0" "DomainExists d s"
      "\<forall>i<NUM_DOMAINS. \<not> used (domains (g_data s) ! i)"
      "UserHandler (g_data s) \<noteq> 0 \<or> (\<forall>r \<in> set (ranges (g_data s)). \<not> r_used r)"
  proof -
    from h(3) have nu: "\<not> any_domain_used 0 s" by (simp add: any_domain_used_0)
    from wf h(4) have sw: "sweep_ranges 0 s =
        Inr (s\<lparr>handler_calls := handler_calls s @ map r_addr (filter r_used (ranges (g_data s)))\<rparr>)"
      by (rule sweep_ranges_all)
    from h(1,2) nu show ?thesis
      by (simp add: PKUDomainFree_def sw zero_slot)
  qed
  have f: "PKUDomainFree d s = Inl NullCall"
    if h: "initialized (g_data s) \<noteq> 0" "DomainExists d s"
      "\<forall>i<NUM_DOMAINS. \<not> used (domains (g_data s) ! i)"
      "UserHandler (g_data s) = 0" "\<exists>j<NUM_MPROTECT_RANGES. r_used (ranges (g_data s) ! j)"
  proof -
    from h(3) have nu: "\<not> any_domain_used 0 s" by (simp add: any_domain_used_0)
    from h(5) obtain j where "j < NUM_MPROTECT_RANGES" "r_used (ranges (g_data s) ! j)" by blast
    with h(4) have "sweep_ranges 0 s = Inl NullCall"
      by (intro sweep_ranges_null [of s 0 j]) simp_all
    with h(1,2) nu show ?thesis by (simp add: PKUDomainFree_def)
  qed
  from a b c e f show ?thesis by blast
qed

lemma PKUDomainFree_cases_example:
  "PKUDomainFree 1 (initial_state 0) = Inr (Val (- 1), initial_state 0) \<and>
   PKUDomainFree 16 gate_state = Inr (Val (- 1), gate_state\<lparr>errno := Some EINVAL\<rparr>) \<and>
   PKUDomainFree 1
     (gate_state\<lparr>g_data := (g_data gate_state)\<lparr>domains :=
        (domains (g_data gate_state))[2 := \<lparr>pkey = 2, perm = 0, used = True\<rparr>]\<rparr>\<rparr>) =
     Inr (Val (- 1),
       gate_state\<lparr>g_data := (g_data gate_state)\<lparr>domains :=
         (domains (g_data gate_state))[2 := \<lparr>pkey = 2, perm = 0, used = True\<rparr>]\<rparr>,
         errno := Some EINVAL\<rparr>) \<and>
   PKUDomainFree 1 sweep_state =
     Inr (Val 0,
       sweep_state\<lparr>handler_calls := [4096, 8192],
         g_data := (g_data sweep_state)\<lparr>domains :=
           (domains (g_data sweep_state))[1 := \<lparr>pkey = 0, perm = 0, used = False\<rparr>]\<rparr>\<rparr>)"
proof -
  let ?u = "gate_state\<lparr>g_data := (g_data gate_state)\<lparr>domains :=
        (domains (g_data gate_state))[2 := \<lparr>pkey = 2, perm = 0, used = True\<rparr>]\<rparr>\<rparr>"
  have wfu: "wf_state ?u" using gate_wf by (simp add: wf_state_def)
  have exu: "DomainExists 1 ?u" using gate_domains by (simp add: DomainExists_def)
  have usedu: "\<exists>i<NUM_DOMAINS. used (domains (g_data ?u) ! i)"
    by (rule exI [of _ 2]) (simp add: gate_tables NUM_DOMAINS_def)
  have exs: "DomainExists 1 sweep_state"
    using gate_domains by (simp add: DomainExists_def sweep_state_facts)
  have nus: "\<forall>i<NUM_DOMAINS. \<not> used (domains (g_data sweep_state) ! i)"
    by (simp add: sweep_state_facts zero_key_def)
  from PKUDomainFree_cases [OF wf_initial, of 0 1]
  have a: "PKUDomainFree 1 (initial_state 0) = Inr (Val (- 1), initial_state 0)"
    by (simp add: initial_flags)
  from PKUDomainFree_cases [OF gate_wf, of 16]
  have b: "PKUDomainFree 16 gate_state = Inr (Val (- 1), gate_state\<lparr>errno := Some EINVAL\<rparr>)"
    by (simp add: gate_flags gate_domains)
  from PKUDomainFree_cases [OF wfu, of 1] exu usedu
  have c: "PKUDomainFree 1 ?u = Inr (Val (- 1), ?u\<lparr>errno := Some EINVAL\<rparr>)"
    by (simp add: gate_flags)
  from PKUDomainFree_cases [OF sweep_state_facts(1), of 1] exs nus
  have d: "PKUDomainFree 1 sweep_state =
     Inr (Val 0,
       sweep_state\<lparr>handler_calls := [4096, 8192],
         g_data := (g_data sweep_state)\<lparr>domains :=
           (domains (g_data sweep_state))[1 := \<lparr>pkey = 0, perm = 0, used = False\<rparr>]\<rparr>\<rparr>)"
    by (simp add: sweep_state_facts sweep_state_used)
  from a b c d show ?thesis by simp
qed

text \<open>
  C6. The claim has the freed domain no longer exist. \<^verbatim>\<open>PKUDomainFree\<close> clears slot
  \<open>did\<close> of \<^verbatim>\<open>g_data.domains\<close>, while \<^verbatim>\<open>DomainExists\<close> reads \<^verbatim>\<open>keys\<close>, which no function
  clears. After the example execution \<^verbatim>\<open>PKUDomainFree(1)\<close> returns 0 and the state is what
  it was: domain 1 still exists, and a call can still be registered for it.
\<close>

theorem PKUDomainFree_domain_survives:
  "run setup_calls (initial_state 0) = Inr gate_state \<and>
   DomainExists 1 gate_state \<and>
   PKUDomainFree 1 gate_state = Inr (Val 0, gate_state) \<and>
   RegisterPKUCall 1 9 gate_state =
     (Val 1, gate_state\<lparr>RegisteredPKUCalls :=
        (RegisteredPKUCalls gate_state)[1 := \<lparr>did = 1, entry = 9\<rparr>]\<rparr>)"
proof -
  have f: "PKUDomainFree 1 gate_state = Inr (Val 0, gate_state)"
    by (simp add: inv_PKUDomainFree gate_state_inv gate_flags gate_domains)
  have "scan_calls 0 (RegisteredPKUCalls gate_state) = 1"
    by (rule scan_calls_found)
      (auto simp: NUM_REGISTERED_PKUCALLS_def gate_calls zero_call_def)
  then have r: "RegisterPKUCall 1 9 gate_state =
     (Val 1, gate_state\<lparr>RegisteredPKUCalls :=
        (RegisteredPKUCalls gate_state)[1 := \<lparr>did = 1, entry = 9\<rparr>]\<rparr>)"
    by (simp add: RegisterPKUCall_def gate_domains NUM_REGISTERED_PKUCALLS_def gate_calls
        zero_call_def PKUCall_overwrite)
  from run_setup gate_domains f r show ?thesis by simp
qed

section \<open>Freeing a key\<close>

text \<open>
  C4, as amended. \<^verbatim>\<open>PKUPkeyFree(pkey)\<close> returns -1 with \<^verbatim>\<open>EPERM\<close> when one of the range
  records it scans, the slots 0..15, is marked used. When no range record of the table is
  marked used, it marks every slot of \<^verbatim>\<open>g_data.domains\<close> unused and then: in lazy-free mode
  returns 0; otherwise returns what \<^verbatim>\<open>PKUDomainFree(pkey)\<close> returns, which is -1 on a
  registry not initialised, -1 with \<^verbatim>\<open>EINVAL\<close> when domain \<open>pkey\<close> does not exist, and 0 with
  slot \<open>pkey\<close> cleared otherwise.
\<close>

theorem PKUPkeyFree_spec:
  "wf_state s \<Longrightarrow>
   ((\<exists>i<NUM_DOMAINS. r_used (ranges (g_data s) ! i)) \<longrightarrow>
      PKUPkeyFree k s = Inr (Val (- 1), s\<lparr>errno := Some EPERM\<rparr>)) \<and>
   ((\<forall>r \<in> set (ranges (g_data s)). \<not> r_used r) \<longrightarrow>
      PKUPkeyFree k s =
        (let s' = s\<lparr>g_data := (g_data s)\<lparr>domains :=
                     map (\<lambda>d. d\<lparr>used := False\<rparr>) (domains (g_data s))\<rparr>\<rparr>
         in if g_LazyFree s then Inr (Val 0, s')
            else if initialized (g_data s) = 0 then Inr (Val (- 1), s')
            else if \<not> DomainExists k s then Inr (Val (- 1), s'\<lparr>errno := Some EINVAL\<rparr>)
            else Inr (Val 0,
                   s'\<lparr>g_data := (g_data s')\<lparr>domains :=
                        (domains (g_data s'))[nat k := \<lparr>pkey = 0, perm = 0, used = False\<rparr>]\<rparr>\<rparr>)))"
proof -
  assume wf: "wf_state s"
  let ?s' = "s\<lparr>g_data := (g_data s)\<lparr>domains :=
                     map (\<lambda>d. d\<lparr>used := False\<rparr>) (domains (g_data s))\<rparr>\<rparr>"
  have rv: "revoke_domains 0 s = ?s'" using wf by (rule revoke_domains_0)
  have a: "(\<exists>i<NUM_DOMAINS. r_used (ranges (g_data s) ! i)) \<longrightarrow>
      PKUPkeyFree k s = Inr (Val (- 1), s\<lparr>errno := Some EPERM\<rparr>)"
    by (simp add: PKUPkeyFree_def any_range_used_0)
  have b: "PKUPkeyFree k s =
        (if g_LazyFree s then Inr (Val 0, ?s')
         else if initialized (g_data s) = 0 then Inr (Val (- 1), ?s')
         else if \<not> DomainExists k s then Inr (Val (- 1), ?s'\<lparr>errno := Some EINVAL\<rparr>)
         else Inr (Val 0,
                ?s'\<lparr>g_data := (g_data ?s')\<lparr>domains :=
                     (domains (g_data ?s'))[nat k := \<lparr>pkey = 0, perm = 0, used = False\<rparr>]\<rparr>\<rparr>))"
    if h: "\<forall>r \<in> set (ranges (g_data s)). \<not> r_used r"
  proof -
    have le: "NUM_DOMAINS \<le> NUM_MPROTECT_RANGES"
      by (simp add: NUM_DOMAINS_def NUM_MPROTECT_RANGES_def)
    from wf have len: "length (ranges (g_data s)) = NUM_MPROTECT_RANGES"
      "length (domains (g_data s)) = NUM_DOMAINS"
      by (simp_all add: wf_state_def)
    from h len have nth: "\<And>j. j < NUM_MPROTECT_RANGES \<Longrightarrow> \<not> r_used (ranges (g_data s) ! j)"
      by simp
    with le have nr: "\<not> any_range_used 0 s"
      by (auto simp: any_range_used_0)
    have nd: "\<not> any_domain_used 0 ?s'"
      using len by (simp add: any_domain_used_0)
    have sw: "sweep_ranges 0 ?s' = Inr ?s'"
      by (rule sweep_ranges_none) (simp add: nth)
    have ex: "DomainExists k ?s' = DomainExists k s"
      by (rule DomainExists_keys) simp
    have fr: "PKUDomainFree k ?s' =
        (if initialized (g_data s) = 0 then Inr (Val (- 1), ?s')
         else if \<not> DomainExists k s then Inr (Val (- 1), ?s'\<lparr>errno := Some EINVAL\<rparr>)
         else Inr (Val 0,
                ?s'\<lparr>g_data := (g_data ?s')\<lparr>domains :=
                     (domains (g_data ?s'))[nat k := \<lparr>pkey = 0, perm = 0, used = False\<rparr>]\<rparr>\<rparr>))"
      unfolding PKUDomainFree_def ex using nd by (simp add: sw zero_slot)
    show ?thesis
      unfolding PKUPkeyFree_def rv Let_def using nr fr by simp
  qed
  from a b show ?thesis by (simp add: Let_def)
qed

theorem PKUPkeyFree_spec_witness:
  "PKUPkeyFree 1 sweep_state = Inr (Val (- 1), sweep_state\<lparr>errno := Some EPERM\<rparr>) \<and>
   PKUPkeyFree 1 gate_state = Inr (Val 0, gate_state) \<and>
   PKUPkeyFree 5 gate_state = Inr (Val (- 1), gate_state\<lparr>errno := Some EINVAL\<rparr>) \<and>
   PKUPkeyFree 1 (gate_state\<lparr>g_LazyFree := True\<rparr>) = Inr (Val 0, gate_state\<lparr>g_LazyFree := True\<rparr>)"
proof -
  have zk: "zero_key\<lparr>used := False\<rparr> = zero_key" "\<lparr>pkey = 0, perm = 0, used = False\<rparr> = zero_key"
    by (simp_all add: zero_key_def)
  have n5: "\<not> DomainExists 5 gate_state"
    by (simp add: DomainExists_def gate_state_def initial_lengths initial_keys_other
        NUM_DOMAINS_def zero_key_def)
  have "gate_state\<lparr>g_data := (g_data gate_state)\<lparr>domains := domains (g_data gate_state)\<rparr>\<rparr>
      = gate_state"
    by simp
  then have same:
    "gate_state\<lparr>g_data := (g_data gate_state)\<lparr>domains := replicate NUM_DOMAINS zero_key\<rparr>\<rparr>
      = gate_state"
    by (simp only: gate_tables(1))
  have lz: "wf_state (gate_state\<lparr>g_LazyFree := True\<rparr>)"
    using gate_wf by (simp add: wf_state_def)
  from PKUPkeyFree_spec [OF sweep_state_facts(1), of 1] sweep_state_low
  have a: "PKUPkeyFree 1 sweep_state = Inr (Val (- 1), sweep_state\<lparr>errno := Some EPERM\<rparr>)"
    by blast
  from PKUPkeyFree_spec [OF gate_wf, of 1] gate_no_range
  have b: "PKUPkeyFree 1 gate_state = Inr (Val 0, gate_state)"
    by (simp add: gate_flags(1-7) gate_domains gate_tables zk replicate_update_same same)
  from PKUPkeyFree_spec [OF gate_wf, of 5] gate_no_range n5
  have c: "PKUPkeyFree 5 gate_state = Inr (Val (- 1), gate_state\<lparr>errno := Some EINVAL\<rparr>)"
    by (simp add: gate_flags(1-7) gate_tables zk same)
  from PKUPkeyFree_spec [OF lz, of 1] gate_no_range
  have d: "PKUPkeyFree 1 (gate_state\<lparr>g_LazyFree := True\<rparr>) = Inr (Val 0, gate_state\<lparr>g_LazyFree := True\<rparr>)"
    by (simp add: gate_tables zk same)
  from a b c d show ?thesis by simp
qed

text \<open>
  The claim as stated has \<^verbatim>\<open>PKUPkeyFree\<close> succeed as soon as no range record is marked
  used. With key 1 granted and no call of \<^verbatim>\<open>PKUInit\<close>, no range is marked used and
  \<^verbatim>\<open>PKUPkeyFree(1)\<close> returns -1.
\<close>

theorem PKUPkeyFree_counterexample:
  "run [CallPKUCreateDomain (grant 1) 0] (initial_state 0) =
     Inr ((initial_state 0)\<lparr>keys :=
            (keys (initial_state 0))[1 := \<lparr>pkey = 1, perm = 0, used = True\<rparr>]\<rparr>) \<and>
   filter r_used
     (ranges (g_data ((initial_state 0)\<lparr>keys :=
        (keys (initial_state 0))[1 := \<lparr>pkey = 1, perm = 0, used = True\<rparr>]\<rparr>))) = [] \<and>
   PKUPkeyFree 1
     ((initial_state 0)\<lparr>keys :=
        (keys (initial_state 0))[1 := \<lparr>pkey = 1, perm = 0, used = True\<rparr>]\<rparr>) =
     Inr (Val (- 1),
       (initial_state 0)\<lparr>keys :=
         (keys (initial_state 0))[1 := \<lparr>pkey = 1, perm = 0, used = True\<rparr>]\<rparr>)"
proof -
  let ?s = "(initial_state 0)\<lparr>keys :=
        (keys (initial_state 0))[1 := \<lparr>pkey = 1, perm = 0, used = True\<rparr>]\<rparr>"
  have k1: "keys (initial_state 0) ! Suc 0 = zero_key"
    by (simp add: initial_keys_other NUM_DOMAINS_def)
  have "PKUCreateDomain (grant 1) 0 (initial_state 0) =
      (Val (uint (1 :: 8 word)),
       (initial_state 0)\<lparr>keys := (keys (initial_state 0))[unat (1 :: 8 word) :=
          (keys (initial_state 0) ! unat (1 :: 8 word))\<lparr>pkey := ucast (1 :: 8 word), used := True\<rparr>]\<rparr>)"
    by (rule PKUCreateDomain_grant) simp
  then have c: "PKUCreateDomain (grant 1) 0 (initial_state 0) = (Val 1, ?s)"
    by (simp add: k1 zero_key_def)
  then have r: "run [CallPKUCreateDomain (grant 1) 0] (initial_state 0) = Inr ?s"
    by simp
  then have inv: "registry_inv ?s" by (rule reachable_inv)
  have nl: "\<not> g_LazyFree ?s" by (simp add: initial_flags)
  have f: "filter r_used (ranges (g_data ?s)) = []"
    using inv by (simp add: registry_inv_def filter_empty_conv)
  have "PKUDomainFree 1 ?s = Inr (Val (- 1), ?s)"
    by (simp add: PKUDomainFree_def initial_flags)
  with inv_PKUPkeyFree [OF inv nl, of 1] have p: "PKUPkeyFree 1 ?s = Inr (Val (- 1), ?s)"
    by simp
  from r f p show ?thesis by simp
qed

text \<open>
  The first loop of \<^verbatim>\<open>PKUPkeyFree\<close> stops at \<^verbatim>\<open>NUM_DOMAINS\<close>: a range marked used in slot 16
  is not seen. The call returns 0, and the sweep of \<^verbatim>\<open>PKUDomainFree\<close>, which does run over
  all 4096 slots, hands the range to the callback.
\<close>

lemma PKUPkeyFree_high_range:
  "PKUPkeyFree 1 high_range_state = Inr (Val 0, high_range_state\<lparr>handler_calls := [65536]\<rparr>)"
proof -
  let ?s = high_range_state
  have low: "\<not> any_range_used 0 ?s"
    by (simp add: any_range_used_0 high_range_state_def gate_tables NUM_DOMAINS_def
        NUM_MPROTECT_RANGES_def zero_range_def)
  have zk: "zero_key\<lparr>used := False\<rparr> = zero_key" "\<lparr>pkey = 0, perm = 0, used = False\<rparr> = zero_key"
    by (simp_all add: zero_key_def)
  have "?s\<lparr>g_data := (g_data ?s)\<lparr>domains := domains (g_data ?s)\<rparr>\<rparr> = ?s" by simp
  then have same: "?s\<lparr>g_data := (g_data ?s)\<lparr>domains := replicate NUM_DOMAINS zero_key\<rparr>\<rparr> = ?s"
    by (simp only: high_range_facts(5))
  have rv: "revoke_domains 0 ?s = ?s"
    by (simp add: revoke_domains_0 high_range_facts zk same)
  have ex: "DomainExists 1 ?s"
    using gate_domains by (simp add: DomainExists_def high_range_facts)
  have nu: "\<forall>i<NUM_DOMAINS. \<not> used (domains (g_data ?s) ! i)"
    by (simp add: high_range_facts zero_key_def)
  have fr: "PKUDomainFree 1 ?s = Inr (Val 0, ?s\<lparr>handler_calls := [65536]\<rparr>)"
    using ex nu
    by (simp add: PKUDomainFree_def any_domain_used_0 sweep_ranges_0 high_range_facts
        high_range_used zero_slot zk replicate_update_same same)
  from low rv fr show ?thesis
    by (simp add: PKUPkeyFree_def high_range_facts)
qed

section \<open>Reusing a slot\<close>

text \<open>
  No function writes a permission other than 0 into \<^verbatim>\<open>keys\<close>, so in every execution
  every stored permission is 0.
\<close>

lemma reachable_perm_zero:
  "run cs (initial_state p0) = Inr s \<Longrightarrow> i < NUM_DOMAINS \<Longrightarrow> perm (keys s ! i) = 0"
proof -
  assume "run cs (initial_state p0) = Inr s" and i: "i < NUM_DOMAINS"
  then have inv: "registry_inv s" by (simp add: reachable_inv)
  with i have "keys s ! i \<in> set (keys s)" by (simp add: registry_inv_def wf_state_def)
  with inv show ?thesis by (simp add: registry_inv_def)
qed



end
